theory Spec2Isabelle
  imports Main "HOL-Library.Sublist" "HOL-Library.Char_ord" "HOL-Library.List_Lexorder"
begin

section \<open>myphotos: inventory of local and remote media files\<close>

text \<open>
  The repository holds two variants of one program, \<^verbatim>\<open>myphotos.go\<close>. The first keys its
  table \<^verbatim>\<open>photos\<close> by \<^verbatim>\<open>(filename, size)\<close> (the composite identity), the second keys its
  table \<^verbatim>\<open>files\<close> by the path relative to the scan root. Both share the names
  \<^verbatim>\<open>upsertLocal\<close>, \<^verbatim>\<open>upsertRemote\<close>, \<^verbatim>\<open>runAdd\<close> and \<^verbatim>\<open>runReport\<close>; the definitions of the
  second variant carry the suffix \<open>_relpath\<close> here.

  A table is the list of its rows in insertion (rowid) order. A Go \<^verbatim>\<open>string\<close> is a byte
  string, modelled by \<^typ>\<open>string\<close>. A Go \<^verbatim>\<open>int64\<close> is an \<^typ>\<open>int\<close>: the program never
  computes with a size, it only stores and compares it, and the one place that produces
  a size from text, \<^verbatim>\<open>strconv.ParseInt\<close>, has its 64-bit range check written out.
\<close>

subsection \<open>The extension filter\<close>

text \<open>
  \<^verbatim>\<open>strings.HasSuffix(s, suffix)\<close> of the Go standard library:
  \<^verbatim>\<open>len(s) >= len(suffix) && s[len(s)-len(suffix):] == suffix\<close>.
\<close>

definition HasSuffix :: "string \<Rightarrow> string \<Rightarrow> bool" where
  "HasSuffix s suf = (length suf \<le> length s \<and> drop (length s - length suf) s = suf)"

text \<open>
  \<^verbatim>\<open>
  func isExtensionAllowed(path string, extensions []string) bool {
      for _, ext := range extensions {
          if strings.HasSuffix(path, ext) { return true }
      }
      return false
  }
  \<close>
\<close>

fun isExtensionAllowed :: "string \<Rightarrow> string list \<Rightarrow> bool" where
  "isExtensionAllowed path [] = False"
| "isExtensionAllowed path (ext # extensions) =
     (if HasSuffix path ext then True else isExtensionAllowed path extensions)"

text \<open>The \<^verbatim>\<open>Extensions\<close> field of \<^verbatim>\<open>getDefaultConfig()\<close>.\<close>

definition getDefaultConfig :: "string list" where
  "getDefaultConfig = [''.jpg'', ''.JPG'', ''.ARW'', ''.mp4'', ''.MP4'']"

subsection \<open>The table of the composite-identity variant\<close>

text \<open>
  \<^verbatim>\<open>
  CREATE TABLE IF NOT EXISTS photos (
      filename TEXT, size INTEGER, local_path TEXT, remote_path TEXT,
      PRIMARY KEY (filename, size));
  \<close>
  A column that holds SQL \<^verbatim>\<open>NULL\<close> is \<^const>\<open>None\<close>. The program binds a Go string and a Go
  \<^verbatim>\<open>int64\<close> to the two key columns, so they are never \<^verbatim>\<open>NULL\<close>. The store a fresh database
  file gives (\<^verbatim>\<open>setupTestDB\<close> of the tests) is the empty list.
\<close>

record photo =
  filename :: string
  size_col :: int
  local_path :: "string option"
  remote_path :: "string option"

type_synonym photos = "photo list"

text \<open>The primary key constraint: no two rows agree on \<^verbatim>\<open>(filename, size)\<close>.\<close>

definition pk_ok :: "photos \<Rightarrow> bool" where
  "pk_ok db = distinct (map (\<lambda>r. (filename r, size_col r)) db)"

text \<open>
  \<^verbatim>\<open>
  INSERT INTO photos (filename, size, local_path) VALUES (?, ?, ?)
  ON CONFLICT(filename, size) DO UPDATE SET local_path=excluded.local_path;
  \<close>
  The model is the statement's effect when \<^verbatim>\<open>db.Exec\<close> succeeds. A failing \<^verbatim>\<open>db.Exec\<close>
  changes nothing in the table; what the callers do with its error is modelled in the two
  scans.
\<close>

fun upsertLocal :: "photos \<Rightarrow> string \<Rightarrow> int \<Rightarrow> string \<Rightarrow> photos" where
  "upsertLocal [] fname sz pth =
     [\<lparr>filename = fname, size_col = sz, local_path = Some pth, remote_path = None\<rparr>]"
| "upsertLocal (r # rs) fname sz pth =
     (if filename r = fname \<and> size_col r = sz then r\<lparr>local_path := Some pth\<rparr> # rs
      else r # upsertLocal rs fname sz pth)"

text \<open>
  \<^verbatim>\<open>
  INSERT INTO photos (filename, size, remote_path) VALUES (?, ?, ?)
  ON CONFLICT(filename, size) DO UPDATE SET remote_path=excluded.remote_path;
  \<close>
\<close>

fun upsertRemote :: "photos \<Rightarrow> string \<Rightarrow> int \<Rightarrow> string \<Rightarrow> photos" where
  "upsertRemote [] fname sz pth =
     [\<lparr>filename = fname, size_col = sz, local_path = None, remote_path = Some pth\<rparr>]"
| "upsertRemote (r # rs) fname sz pth =
     (if filename r = fname \<and> size_col r = sz then r\<lparr>remote_path := Some pth\<rparr> # rs
      else r # upsertRemote rs fname sz pth)"

text \<open>
  The row the tests read back in \<^verbatim>\<open>assertFileState\<close>:
  \<^verbatim>\<open>SELECT local_path, remote_path FROM photos WHERE filename = ? AND size = ?\<close>
  (\<^const>\<open>None\<close> is \<^verbatim>\<open>sql.ErrNoRows\<close>), and the two flags it derives from it:
  \<^verbatim>\<open>onLocal := localPath.Valid && localPath.String != ""\<close>, and likewise \<^verbatim>\<open>onRemote\<close>.
\<close>

definition lookup :: "photos \<Rightarrow> string \<Rightarrow> int \<Rightarrow> photo option" where
  "lookup db fname sz = find (\<lambda>r. filename r = fname \<and> size_col r = sz) db"

definition onLocal :: "photo \<Rightarrow> bool" where
  "onLocal r = (case local_path r of None \<Rightarrow> False | Some s \<Rightarrow> s \<noteq> [])"

definition onRemote :: "photo \<Rightarrow> bool" where
  "onRemote r = (case remote_path r of None \<Rightarrow> False | Some s \<Rightarrow> s \<noteq> [])"

subsection \<open>The report queries of the composite-identity variant\<close>

text \<open>
  \<^verbatim>\<open>rows.Scan\<close> into a Go \<^verbatim>\<open>string\<close>: the column's text. (The \<^verbatim>\<open>WHERE\<close> clauses below select
  rows whose scanned columns are not \<^verbatim>\<open>NULL\<close>; on \<^verbatim>\<open>NULL\<close> the destination would keep its
  zero value, the empty string.)
\<close>

definition col_text :: "string option \<Rightarrow> string" where
  "col_text c = (case c of None \<Rightarrow> [] | Some s \<Rightarrow> s)"

text \<open>\<^verbatim>\<open>local_path IS NOT NULL AND local_path != ''\<close>\<close>

definition local_present :: "photo \<Rightarrow> bool" where
  "local_present r = (local_path r \<noteq> None \<and> local_path r \<noteq> Some [])"

text \<open>\<^verbatim>\<open>remote_path IS NOT NULL AND remote_path != ''\<close>\<close>

definition remote_present :: "photo \<Rightarrow> bool" where
  "remote_present r = (remote_path r \<noteq> None \<and> remote_path r \<noteq> Some [])"

text \<open>\<^verbatim>\<open>(remote_path IS NULL OR remote_path = '')\<close>\<close>

definition remote_absent :: "photo \<Rightarrow> bool" where
  "remote_absent r = (remote_path r = None \<or> remote_path r = Some [])"

text \<open>
  \<^verbatim>\<open>
  SELECT local_path FROM photos
  WHERE local_path IS NOT NULL AND local_path != ''
    AND (remote_path IS NULL OR remote_path = '')
  \<close>
  The rows come in table order; SQL promises no order, and the claims below speak of the
  set of results and of their number.
\<close>

definition query_missing :: "photos \<Rightarrow> string list" where
  "query_missing db =
     map (\<lambda>r. col_text (local_path r)) (filter (\<lambda>r. local_present r \<and> remote_absent r) db)"

text \<open>
  \<^verbatim>\<open>
  SELECT p1.local_path, p1.size, p2.remote_path, p2.size
  FROM photos p1 JOIN photos p2 ON p1.filename = p2.filename
  WHERE p1.local_path IS NOT NULL AND p1.local_path != ''
    AND (p1.remote_path IS NULL OR p1.remote_path = '')
    AND p2.remote_path IS NOT NULL AND p2.remote_path != ''
  \<close>
\<close>

definition query_wrong_size :: "photos \<Rightarrow> (string \<times> int \<times> string \<times> int) list" where
  "query_wrong_size db =
     [(col_text (local_path p1), size_col p1, col_text (remote_path p2), size_col p2).
        p1 \<leftarrow> db, p2 \<leftarrow> db,
        filename p1 = filename p2,
        local_present p1 \<and> remote_absent p1 \<and> remote_present p2]"

subsection \<open>Library functions the report and the scans call\<close>

text \<open>
  \<^verbatim>\<open>filepath.Clean\<close> and \<^verbatim>\<open>filepath.Dir\<close> of the Go standard library on Unix (separator
  \<^verbatim>\<open>/\<close>, no volume names). \<open>Clean_loop\<close> is the loop of \<^verbatim>\<open>Clean\<close>: it reads the rest of
  the path, writes to the buffer \<open>out\<close>, and \<open>dotdot\<close> is the index in the buffer where
  a \<^verbatim>\<open>..\<close> element must stop backtracking. \<open>backtrack\<close> is the inner loop
  \<^verbatim>\<open>for out.w > dotdot && !os.IsPathSeparator(out.index(out.w)) { out.w-- }\<close>.
\<close>

fun backtrack :: "string \<Rightarrow> nat \<Rightarrow> nat \<Rightarrow> nat" where
  "backtrack buf dotdot 0 = 0"
| "backtrack buf dotdot (Suc w) =
     (if Suc w > dotdot \<and> buf ! Suc w \<noteq> CHR ''/'' then backtrack buf dotdot w else Suc w)"

function Clean_loop :: "bool \<Rightarrow> string \<Rightarrow> string \<Rightarrow> nat \<Rightarrow> string" where
  "Clean_loop rooted [] out dotdot = out"
| "Clean_loop rooted (c # cs) out dotdot =
     (if c = CHR ''/'' then Clean_loop rooted cs out dotdot
      else if c = CHR ''.'' \<and> (cs = [] \<or> hd cs = CHR ''/'') then
        Clean_loop rooted cs out dotdot
      else if c = CHR ''.'' \<and> hd cs = CHR ''.'' \<and> (tl cs = [] \<or> hd (tl cs) = CHR ''/'') then
        (if length out > dotdot then
           Clean_loop rooted (tl cs) (take (backtrack out dotdot (length out - 1)) out) dotdot
         else if \<not> rooted then
           (let out' = (if length out > 0 then out @ ''/'' else out) @ ''..''
            in Clean_loop rooted (tl cs) out' (length out'))
         else Clean_loop rooted (tl cs) out dotdot)
      else
        (let out' = (if rooted \<and> length out \<noteq> 1 \<or> \<not> rooted \<and> length out \<noteq> 0
                     then out @ ''/'' else out)
         in Clean_loop rooted (dropWhile (\<lambda>x. x \<noteq> CHR ''/'') (c # cs))
              (out' @ takeWhile (\<lambda>x. x \<noteq> CHR ''/'') (c # cs)) dotdot))"
  by pat_completeness auto
termination
proof (relation "measure (\<lambda>(rooted, pth, out, dotdot). length pth)", goal_cases)
  case 1
  then show ?case by simp
next
  case (2 rooted c cs out dotdot)
  then show ?case by simp
next
  case (3 rooted c cs out dotdot)
  then show ?case by simp
next
  case (4 rooted c cs out dotdot)
  then show ?case by (cases cs) auto
next
  case (5 rooted c cs out dotdot)
  then show ?case by (cases cs) auto
next
  case (6 rooted c cs out dotdot)
  then show ?case by (cases cs) auto
next
  case (7 rooted c cs out dotdot)
  have "length (dropWhile (\<lambda>x. x \<noteq> CHR ''/'') cs) \<le> length cs"
    by (rule length_dropWhile_le)
  with 7 show ?case by simp
qed

definition Clean :: "string \<Rightarrow> string" where
  "Clean pth =
     (if pth = [] then ''.''
      else
        (let rooted = (hd pth = CHR ''/'');
             out = (if rooted then Clean_loop True (tl pth) ''/'' 1
                    else Clean_loop False pth [] 0)
         in if out = [] then ''.'' else out))"

text \<open>\<^verbatim>\<open>Dir\<close> drops the last element (all that follows the last separator) and cleans the rest.\<close>

definition Dir :: "string \<Rightarrow> string" where
  "Dir pth = Clean (rev (dropWhile (\<lambda>c. c \<noteq> CHR ''/'') (rev pth)))"

text \<open>
  \<^verbatim>\<open>strings.Split(s, sep)\<close> for a separator of one byte: the pieces of \<open>s\<close> between the
  occurrences of \<open>sep\<close>; one piece more than there are separators.
\<close>

fun Split :: "string \<Rightarrow> char \<Rightarrow> string list" where
  "Split [] sep = [[]]"
| "Split (c # cs) sep =
     (if c = sep then [] # Split cs sep
      else (case Split cs sep of [] \<Rightarrow> [[c]] | p # ps \<Rightarrow> (c # p) # ps))"

text \<open>
  \<^verbatim>\<open>strconv.ParseInt(s, 10, 64)\<close>: an optional sign, then decimal digits only (base 10 is
  given, so no underscores and no prefix), read by \<^verbatim>\<open>ParseUint\<close>; a value that does not
  fit 64 bits is a range error. \<open>ParseUint_loop\<close> is the digit loop of \<^verbatim>\<open>ParseUint\<close>, whose
  \<^verbatim>\<open>cutoff\<close> is \<^verbatim>\<open>maxUint64/10 + 1\<close>.
\<close>

datatype num_error = ErrSyntax | ErrRange

definition maxUint64 :: nat where
  "maxUint64 = 18446744073709551615"

fun ParseUint_loop :: "string \<Rightarrow> nat \<Rightarrow> num_error + nat" where
  "ParseUint_loop [] n = Inr n"
| "ParseUint_loop (c # cs) n =
     (if CHR ''0'' \<le> c \<and> c \<le> CHR ''9'' then
        (let d = of_char c - of_char CHR ''0'' in
         if n \<ge> maxUint64 div 10 + 1 then Inl ErrRange
         else (let n1 = n * 10 + d in
               if n1 > maxUint64 then Inl ErrRange else ParseUint_loop cs n1))
      else Inl ErrSyntax)"

definition ParseUint :: "string \<Rightarrow> num_error + nat" where
  "ParseUint s = (if s = [] then Inl ErrSyntax else ParseUint_loop s 0)"

definition ParseInt :: "string \<Rightarrow> num_error + int" where
  "ParseInt s0 =
     (if s0 = [] then Inl ErrSyntax
      else
        (let neg = (hd s0 = CHR ''-'');
             s = (if hd s0 = CHR ''+'' \<or> hd s0 = CHR ''-'' then tl s0 else s0)
         in case ParseUint s of
              Inl e \<Rightarrow> Inl e
            | Inr un \<Rightarrow>
                if \<not> neg \<and> un \<ge> 2 ^ 63 then Inl ErrRange
                else if neg \<and> un > 2 ^ 63 then Inl ErrRange
                else Inr (if neg then - int un else int un)))"

subsection \<open>The report of the composite-identity variant\<close>

text \<open>
  The Go map \<^verbatim>\<open>summary\<close> of \<^verbatim>\<open>runReport\<close> as an association list; \<open>bump m k\<close> is
  \<^verbatim>\<open>summary[k]++\<close> and \<open>count_of m k\<close> is the read \<^verbatim>\<open>summary[k]\<close>, zero for a key that is
  not there.
\<close>

fun bump :: "(string \<times> nat) list \<Rightarrow> string \<Rightarrow> (string \<times> nat) list" where
  "bump [] k = [(k, 1)]"
| "bump ((k', c) # m) k = (if k' = k then (k', c + 1) # m else (k', c) # bump m k)"

definition count_of :: "(string \<times> nat) list \<Rightarrow> string \<Rightarrow> nat" where
  "count_of m k = (case map_of m k of None \<Rightarrow> 0 | Some c \<Rightarrow> c)"

text \<open>
  The three outputs of \<^verbatim>\<open>runReport\<close>, each with the total it prints last: the mismatch
  pairs (\<^verbatim>\<open>-wrong_size\<close>), the flat list (\<^verbatim>\<open>-v\<close>, \<^verbatim>\<open>-verbose\<close>), and the lines
  \<^verbatim>\<open>dir: count\<close> of the summary by directory.
\<close>

datatype report =
    Mismatches "(string \<times> int \<times> string \<times> int) list" nat
  | Listing "string list" nat
  | Summary "(string \<times> nat) list" nat

text \<open>
  The non-verbose branch: \<^verbatim>\<open>summary[filepath.Dir(p)]++\<close> for every row, then the keys of the
  map, \<^verbatim>\<open>sort.Strings(keys)\<close> (increasing, bytewise), and one line per key.
\<close>

definition summary_lines :: "string list \<Rightarrow> (string \<times> nat) list" where
  "summary_lines rows =
     (let summary = foldl (\<lambda>m p. bump m (Dir p)) [] rows;
          keys = sort (map fst summary)
      in map (\<lambda>k. (k, count_of summary k)) keys)"

definition runReport :: "bool \<Rightarrow> bool \<Rightarrow> photos \<Rightarrow> report" where
  "runReport isVerbose wrongSize db =
     (if wrongSize then Mismatches (query_wrong_size db) (length (query_wrong_size db))
      else if isVerbose then Listing (query_missing db) (length (query_missing db))
      else Summary (summary_lines (query_missing db)) (length (query_missing db)))"

subsection \<open>The remote scan of the composite-identity variant\<close>

text \<open>A Go \<^verbatim>\<open>error\<close> value that is not \<^verbatim>\<open>nil\<close>.\<close>

datatype error = Error string

text \<open>
  The remote branch of \<^verbatim>\<open>runAdd\<close> reads the standard output of the remote \<^verbatim>\<open>find\<close> with
  \<^verbatim>\<open>bufio.NewScanner(&out)\<close> and \<^verbatim>\<open>scanner.Scan()\<close>. The scanner splits with
  \<^verbatim>\<open>bufio.ScanLines\<close>: a token is the text up to the next newline, without one trailing
  carriage return (\<^verbatim>\<open>dropCR\<close>); text after the last newline is a last token when it is not
  empty. The scanner's buffer holds at most \<^verbatim>\<open>bufio.MaxScanTokenSize\<close> bytes (64 KiB): when
  that many bytes are pending with no newline among them, \<^verbatim>\<open>Scan\<close> records \<^verbatim>\<open>ErrTooLong\<close>
  and returns false. The program never reads \<^verbatim>\<open>scanner.Err()\<close>, so its loop just ends
  there, and the rest of the output is not read.

  \<open>scanner_tokens pending data\<close> is the list of tokens the loop sees, for the bytes
  \<open>pending\<close> of the current line and the unread bytes \<open>data\<close>.
\<close>

definition MaxScanTokenSize :: nat where
  "MaxScanTokenSize = 64 * 1024"

definition dropCR :: "string \<Rightarrow> string" where
  "dropCR data = (if data \<noteq> [] \<and> last data = CHR 0x0D then butlast data else data)"

fun scanner_tokens :: "string \<Rightarrow> string \<Rightarrow> string list" where
  "scanner_tokens pending [] =
     (if pending = [] then []
      else if length pending \<ge> MaxScanTokenSize then []
      else [dropCR pending])"
| "scanner_tokens pending (c # data) =
     (if c = CHR 0x0A then
        (if length pending \<ge> MaxScanTokenSize then []
         else dropCR pending # scanner_tokens [] data)
      else scanner_tokens (pending @ [c]) data)"

text \<open>
  The loop of \<^verbatim>\<open>runAdd\<close> over the tokens (\<^verbatim>\<open>scanner.Text()\<close>); the remote \<^verbatim>\<open>find\<close> prints
  the name, the size and the path of a file with a tab between them.
  \<^verbatim>\<open>
  parts := strings.Split(line, "\t")
  if len(parts) != 3 { continue }
  name := parts[0]
  size, err := strconv.ParseInt(parts[1], 10, 64)
  if err != nil { continue }
  fullPath := parts[2]
  if !isExtensionAllowed(name, cfg.Extensions) { continue }
  if err := upsertRemote(db, name, size, fullPath); err != nil { log.Printf(...) }
  count++
  \<close>
  The state of the loop is the table and \<^verbatim>\<open>count\<close>; the loop has no other counter. A
  failing \<^verbatim>\<open>upsertRemote\<close> is logged and the line is counted all the same. \<open>exec n\<close> is
  the answer of the store to the call of \<^verbatim>\<open>upsertRemote\<close> made when \<^verbatim>\<open>count\<close> is \<open>n\<close>
  (\<^verbatim>\<open>count\<close> is also the number of calls made so far): \<^const>\<open>None\<close> when the statement
  succeeds, the error when it fails and leaves the table as it was.
\<close>

definition tab :: char where
  "tab = CHR 0x09"

fun remote_lines ::
  "string list \<Rightarrow> (nat \<Rightarrow> error option) \<Rightarrow> photos \<Rightarrow> nat \<Rightarrow> string list \<Rightarrow> photos \<times> nat" where
  "remote_lines exts exec db count [] = (db, count)"
| "remote_lines exts exec db count (line # rest) =
     (let parts = Split line tab in
      if length parts \<noteq> 3 then remote_lines exts exec db count rest
      else
        (case ParseInt (parts ! 1) of
           Inl err \<Rightarrow> remote_lines exts exec db count rest
         | Inr sz \<Rightarrow>
             if \<not> isExtensionAllowed (parts ! 0) exts then remote_lines exts exec db count rest
             else
               (case exec count of
                  Some err \<Rightarrow> remote_lines exts exec db (count + 1) rest
                | None \<Rightarrow>
                    remote_lines exts exec (upsertRemote db (parts ! 0) sz (parts ! 2))
                      (count + 1) rest)))"

text \<open>
  The remote branch of \<^verbatim>\<open>runAdd\<close>. \<open>ssh\<close> is the outcome of \<^verbatim>\<open>sshCmd.Run()\<close>: its error,
  on which the program ends in \<^verbatim>\<open>log.Fatalf\<close> (\<^const>\<open>Inl\<close>), or the standard output it
  captured. After the loop the program prints \<^verbatim>\<open>count\<close> (\<^const>\<open>Inr\<close>).
\<close>

definition runAdd_remote ::
  "string list \<Rightarrow> (nat \<Rightarrow> error option) \<Rightarrow> photos \<Rightarrow> error + string \<Rightarrow> photos \<times> (error + nat)" where
  "runAdd_remote exts exec db ssh =
     (case ssh of
        Inl err \<Rightarrow> (db, Inl err)
      | Inr out \<Rightarrow>
          (case remote_lines exts exec db 0 (scanner_tokens [] out) of
             (db', count) \<Rightarrow> (db', Inr count)))"

text \<open>
  What the loop reads from one token: \<^const>\<open>None\<close> for a line it gives up on before the
  extension filter (a field count other than three, or a size \<^verbatim>\<open>ParseInt\<close> rejects).
\<close>

definition parse_line :: "string \<Rightarrow> (string \<times> int \<times> string) option" where
  "parse_line line =
     (let parts = Split line tab in
      if length parts \<noteq> 3 then None
      else (case ParseInt (parts ! 1) of
              Inl err \<Rightarrow> None
            | Inr sz \<Rightarrow> Some (parts ! 0, sz, parts ! 2)))"

definition malformed :: "string \<Rightarrow> bool" where
  "malformed line = (parse_line line = None)"

text \<open>A valid line in scope: well formed, and its name passes the extension filter.\<close>

definition valid_in_scope :: "string list \<Rightarrow> string \<Rightarrow> bool" where
  "valid_in_scope exts line =
     (case parse_line line of None \<Rightarrow> False | Some (name, sz, fullPath) \<Rightarrow> isExtensionAllowed name exts)"

text \<open>The identity \<^verbatim>\<open>(name, size)\<close> a line carries.\<close>

definition line_key :: "string \<Rightarrow> (string \<times> int) option" where
  "line_key line = map_option (\<lambda>(name, sz, fullPath). (name, sz)) (parse_line line)"

text \<open>
  A line of output the scanner turns into a token: it holds no newline and is shorter than
  the scanner's limit. \<open>listing\<close> is an output of such lines, each ended by a newline, as
  \<^verbatim>\<open>find -printf '...\n'\<close> prints them.
\<close>

definition scannable :: "string \<Rightarrow> bool" where
  "scannable line = (CHR 0x0A \<notin> set line \<and> length line < MaxScanTokenSize)"

definition listing :: "string list \<Rightarrow> string" where
  "listing lines = concat (map (\<lambda>l. l @ [CHR 0x0A]) lines)"

subsection \<open>The local scan of the composite-identity variant\<close>

text \<open>
  \<^verbatim>\<open>filepath.WalkDir(root, fn)\<close> calls \<^verbatim>\<open>fn(path, d, err)\<close> for the entries of the tree in
  lexical order and stops at the first call that returns an error, which it returns.
  (The two errors it treats otherwise, \<^verbatim>\<open>SkipDir\<close> and \<^verbatim>\<open>SkipAll\<close>, are never returned by
  the callback of this program.) A \<open>visit\<close> is one call of the callback with what the
  file system and the store answer during it: the \<^verbatim>\<open>err\<close> argument (set when \<^verbatim>\<open>WalkDir\<close>
  could not stat the root or read a directory), \<^verbatim>\<open>d.IsDir()\<close>, \<^verbatim>\<open>d.Name()\<close>, the result of
  \<^verbatim>\<open>d.Info()\<close> (the size, or an error), the result of \<^verbatim>\<open>filepath.Abs(path)\<close> (its error
  is dropped by the program), and the error of \<^verbatim>\<open>db.Exec\<close> in \<^verbatim>\<open>upsertLocal\<close>, if any.
\<close>

record visit =
  w_path :: string
  w_err :: "error option"
  d_IsDir :: bool
  d_Name :: string
  d_Info :: "error + int"
  abs_path :: string
  exec_err :: "error option"

text \<open>
  \<^verbatim>\<open>
  func(path string, d os.DirEntry, err error) error {
      if err != nil { return err }
      if d.IsDir() { return nil }
      if !isExtensionAllowed(path, cfg.Extensions) { return nil }
      info, err := d.Info()
      if err != nil { return err }
      absPath, _ := filepath.Abs(path)
      if err := upsertLocal(db, d.Name(), info.Size(), absPath); err != nil { return err }
      count++
      return nil
  }
  \<close>
  The callback changes the table and \<^verbatim>\<open>count\<close> and returns an error or \<^verbatim>\<open>nil\<close>
  (\<^const>\<open>None\<close>).
\<close>

definition walk_fn :: "string list \<Rightarrow> photos \<times> nat \<Rightarrow> visit \<Rightarrow> (photos \<times> nat) \<times> error option" where
  "walk_fn exts st v =
     (case w_err v of
        Some err \<Rightarrow> (st, Some err)
      | None \<Rightarrow>
          if d_IsDir v then (st, None)
          else if \<not> isExtensionAllowed (w_path v) exts then (st, None)
          else
            (case d_Info v of
               Inl err \<Rightarrow> (st, Some err)
             | Inr sz \<Rightarrow>
                 (case exec_err v of
                    Some err \<Rightarrow> (st, Some err)
                  | None \<Rightarrow> ((upsertLocal (fst st) (d_Name v) sz (abs_path v), snd st + 1), None))))"

fun WalkDir :: "('s \<Rightarrow> 'v \<Rightarrow> 's \<times> error option) \<Rightarrow> 's \<Rightarrow> 'v list \<Rightarrow> 's \<times> error option" where
  "WalkDir fn st [] = (st, None)"
| "WalkDir fn st (v # vs) =
     (case fn st v of
        (st', Some err) \<Rightarrow> (st', Some err)
      | (st', None) \<Rightarrow> WalkDir fn st' vs)"

text \<open>
  The local branch of \<^verbatim>\<open>runAdd\<close>: an error of the walk is \<^verbatim>\<open>log.Fatalf\<close>, which ends the
  process (\<^const>\<open>Inl\<close>); otherwise the count is printed (\<^const>\<open>Inr\<close>). The table keeps what
  the walk had merged by then.
\<close>

definition runAdd_local :: "string list \<Rightarrow> photos \<Rightarrow> visit list \<Rightarrow> photos \<times> (error + nat)" where
  "runAdd_local exts db visits =
     (case WalkDir (walk_fn exts) (db, 0) visits of
        ((db', count), Some err) \<Rightarrow> (db', Inl err)
      | ((db', count), None) \<Rightarrow> (db', Inr count))"

text \<open>The callback returns an error on \<open>v\<close>: the conditions of its three \<^verbatim>\<open>return err\<close>.\<close>

definition entry_fails :: "string list \<Rightarrow> visit \<Rightarrow> bool" where
  "entry_fails exts v =
     (w_err v \<noteq> None \<or>
      (\<not> d_IsDir v \<and> isExtensionAllowed (w_path v) exts \<and> (isl (d_Info v) \<or> exec_err v \<noteq> None)))"

subsection \<open>The relative-path variant\<close>

text \<open>
  \<^verbatim>\<open>
  CREATE TABLE IF NOT EXISTS files (
      rel_path TEXT PRIMARY KEY, on_local BOOLEAN DEFAULT 0, on_remote BOOLEAN DEFAULT 0);
  \<close>
  SQLite stores a \<^verbatim>\<open>BOOLEAN\<close> as an integer; the program writes 0 and 1.
\<close>

record file_row =
  rel_path :: string
  on_local :: int
  on_remote :: int

type_synonym files = "file_row list"

text \<open>
  \<^verbatim>\<open>
  INSERT INTO files (rel_path, on_local, on_remote) VALUES (?, 1, 0)
  ON CONFLICT(rel_path) DO UPDATE SET on_local=1;
  \<close>
\<close>

fun upsertLocal_relpath :: "files \<Rightarrow> string \<Rightarrow> files" where
  "upsertLocal_relpath [] relPath = [\<lparr>rel_path = relPath, on_local = 1, on_remote = 0\<rparr>]"
| "upsertLocal_relpath (r # rs) relPath =
     (if rel_path r = relPath then r\<lparr>on_local := 1\<rparr> # rs
      else r # upsertLocal_relpath rs relPath)"

text \<open>
  \<^verbatim>\<open>
  INSERT INTO files (rel_path, on_local, on_remote) VALUES (?, 0, 1)
  ON CONFLICT(rel_path) DO UPDATE SET on_remote=1;
  \<close>
\<close>

fun upsertRemote_relpath :: "files \<Rightarrow> string \<Rightarrow> files" where
  "upsertRemote_relpath [] relPath = [\<lparr>rel_path = relPath, on_local = 0, on_remote = 1\<rparr>]"
| "upsertRemote_relpath (r # rs) relPath =
     (if rel_path r = relPath then r\<lparr>on_remote := 1\<rparr> # rs
      else r # upsertRemote_relpath rs relPath)"

text \<open>\<^verbatim>\<open>SELECT on_local, on_remote FROM files WHERE rel_path = ?\<close> (\<^verbatim>\<open>assertFileState\<close>).\<close>

definition lookup_relpath :: "files \<Rightarrow> string \<Rightarrow> file_row option" where
  "lookup_relpath db relPath = find (\<lambda>r. rel_path r = relPath) db"

text \<open>\<^verbatim>\<open>SELECT rel_path FROM files WHERE on_local = 1 AND on_remote = 0\<close>, the query of \<^verbatim>\<open>runReport\<close>.\<close>

definition query_missing_relpath :: "files \<Rightarrow> string list" where
  "query_missing_relpath db = map rel_path (filter (\<lambda>r. on_local r = 1 \<and> on_remote r = 0) db)"

text \<open>\<^verbatim>\<open>runReport\<close> prints the rows and then their number.\<close>

definition runReport_relpath :: "files \<Rightarrow> string list \<times> nat" where
  "runReport_relpath db = (query_missing_relpath db, length (query_missing_relpath db))"

text \<open>
  The callback of the local walk. \<open>Rel\<close> stands for \<^verbatim>\<open>filepath.Rel(*pathPtr, path)\<close> as a
  function of \<^verbatim>\<open>path\<close>, a parameter of the model.
  \<^verbatim>\<open>
  func(path string, d os.DirEntry, err error) error {
      if err != nil { return err }
      if d.IsDir() { return nil }
      if !isExtensionAllowed(path, cfg.Extensions) { return nil }
      relPath, err := filepath.Rel(*pathPtr, path)
      if err != nil { return err }
      if err := upsertLocal(db, relPath); err != nil { return err }
      count++
      return nil
  }
  \<close>
\<close>

definition walk_fn_relpath ::
  "(string \<Rightarrow> error + string) \<Rightarrow> string list \<Rightarrow> files \<times> nat \<Rightarrow> visit \<Rightarrow> (files \<times> nat) \<times> error option" where
  "walk_fn_relpath Rel exts st v =
     (case w_err v of
        Some err \<Rightarrow> (st, Some err)
      | None \<Rightarrow>
          if d_IsDir v then (st, None)
          else if \<not> isExtensionAllowed (w_path v) exts then (st, None)
          else
            (case Rel (w_path v) of
               Inl err \<Rightarrow> (st, Some err)
             | Inr relPath \<Rightarrow>
                 (case exec_err v of
                    Some err \<Rightarrow> (st, Some err)
                  | None \<Rightarrow> ((upsertLocal_relpath (fst st) relPath, snd st + 1), None))))"

definition runAdd_local_relpath ::
  "(string \<Rightarrow> error + string) \<Rightarrow> string list \<Rightarrow> files \<Rightarrow> visit list \<Rightarrow> files \<times> (error + nat)" where
  "runAdd_local_relpath Rel exts db visits =
     (case WalkDir (walk_fn_relpath Rel exts) (db, 0) visits of
        ((db', count), Some err) \<Rightarrow> (db', Inl err)
      | ((db', count), None) \<Rightarrow> (db', Inr count))"

definition entry_fails_relpath :: "(string \<Rightarrow> error + string) \<Rightarrow> string list \<Rightarrow> visit \<Rightarrow> bool" where
  "entry_fails_relpath Rel exts v =
     (w_err v \<noteq> None \<or>
      (\<not> d_IsDir v \<and> isExtensionAllowed (w_path v) exts \<and> (isl (Rel (w_path v)) \<or> exec_err v \<noteq> None)))"

subsection \<open>The size-mismatch report as the specification words it\<close>

text \<open>
  The specification describes the mismatch report as a join across records that share a
  name, where one instance is local-only and a different-sized instance of the same name
  is remote-only. This definition follows those words, for comparison with
  \<^const>\<open>query_wrong_size\<close>, which follows the SQL of the program.
\<close>

definition spec_size_mismatch :: "photos \<Rightarrow> (string \<times> int \<times> string \<times> int) list" where
  "spec_size_mismatch db =
     [(col_text (local_path p1), size_col p1, col_text (remote_path p2), size_col p2).
        p1 \<leftarrow> db, p2 \<leftarrow> db,
        filename p1 = filename p2 \<and> size_col p1 \<noteq> size_col p2,
        onLocal p1 \<and> \<not> onRemote p1,
        onRemote p2 \<and> \<not> onLocal p2]"

subsection \<open>Example inputs\<close>

text \<open>
  A line of the remote listing as \<^verbatim>\<open>find -printf '%f\t%s\t%p\n'\<close> prints it: the name,
  the size in decimal and the path, with a tab between them.
\<close>

definition listing_line :: "string \<Rightarrow> string \<Rightarrow> string \<Rightarrow> string" where
  "listing_line name sz pth = name @ [tab] @ sz @ [tab] @ pth"

text \<open>A store that accepts every write.\<close>

definition store_ok :: "nat \<Rightarrow> error option" where
  "store_ok n = None"

text \<open>
  A walk of a directory \<^verbatim>\<open>/photos\<close> that holds \<^verbatim>\<open>a.jpg\<close>, a directory \<^verbatim>\<open>private\<close> and
  \<^verbatim>\<open>z.jpg\<close>. When \<^verbatim>\<open>private\<close> cannot be read, \<^verbatim>\<open>WalkDir\<close> calls the callback for it a
  second time, with the error.
\<close>

definition visit_root :: visit where
  "visit_root = \<lparr>w_path = ''/photos'', w_err = None, d_IsDir = True, d_Name = ''photos'',
     d_Info = Inr 4096, abs_path = ''/photos'', exec_err = None\<rparr>"

definition visit_a :: visit where
  "visit_a = \<lparr>w_path = ''/photos/a.jpg'', w_err = None, d_IsDir = False, d_Name = ''a.jpg'',
     d_Info = Inr 10, abs_path = ''/photos/a.jpg'', exec_err = None\<rparr>"

definition visit_private :: visit where
  "visit_private = \<lparr>w_path = ''/photos/private'', w_err = None, d_IsDir = True,
     d_Name = ''private'', d_Info = Inr 4096, abs_path = ''/photos/private'', exec_err = None\<rparr>"

definition visit_private_denied :: visit where
  "visit_private_denied = visit_private\<lparr>w_err := Some (Error ''open /photos/private: permission denied'')\<rparr>"

definition visit_z :: visit where
  "visit_z = \<lparr>w_path = ''/photos/z.jpg'', w_err = None, d_IsDir = False, d_Name = ''z.jpg'',
     d_Info = Inr 20, abs_path = ''/photos/z.jpg'', exec_err = None\<rparr>"

subsection \<open>Facts about the extension filter\<close>

lemma HasSuffix_iff_suffix: "HasSuffix s suf \<longleftrightarrow> suffix suf s"
proof
  assume "HasSuffix s suf"
  then have "drop (length s - length suf) s = suf"
    by (simp add: HasSuffix_def)
  then have "s = take (length s - length suf) s @ suf"
    by (metis append_take_drop_id)
  then show "suffix suf s"
    by (metis suffixI)
next
  assume "suffix suf s"
  then obtain zs where "s = zs @ suf"
    by (auto simp: suffix_def)
  then show "HasSuffix s suf"
    by (simp add: HasSuffix_def)
qed

lemma isExtensionAllowed_iff:
  "isExtensionAllowed path exts \<longleftrightarrow> (\<exists>ext \<in> set exts. suffix ext path)"
  by (induction exts) (auto simp: HasSuffix_iff_suffix)

lemma HasSuffix_append_same_length:
  "length a = length b \<Longrightarrow> HasSuffix (p @ a) b \<longleftrightarrow> a = b"
  by (auto simp: HasSuffix_def)

text \<open>
  Claim C7. With the allow-list \<^verbatim>\<open>{.jpg, .JPG, .mp4}\<close> of the repository's test,
  \<^verbatim>\<open>isExtensionAllowed\<close> accepts \<^verbatim>\<open>photo.jpg\<close>, \<^verbatim>\<open>photo.JPG\<close> and
  \<^verbatim>\<open>/abs/path/photo.jpg\<close> and rejects \<^verbatim>\<open>document.txt\<close> and
  \<^verbatim>\<open>folder.jpg/real_file.txt\<close>; in general it holds exactly when some listed extension
  is a suffix of the whole path string, so an extension inside an earlier path segment
  does not count.
\<close>

theorem C7_extension_filter:
  "isExtensionAllowed ''photo.jpg'' [''.jpg'', ''.JPG'', ''.mp4'']
   \<and> isExtensionAllowed ''photo.JPG'' [''.jpg'', ''.JPG'', ''.mp4'']
   \<and> isExtensionAllowed ''/abs/path/photo.jpg'' [''.jpg'', ''.JPG'', ''.mp4'']
   \<and> \<not> isExtensionAllowed ''document.txt'' [''.jpg'', ''.JPG'', ''.mp4'']
   \<and> \<not> isExtensionAllowed ''folder.jpg/real_file.txt'' [''.jpg'', ''.JPG'', ''.mp4'']
   \<and> (isExtensionAllowed path exts \<longleftrightarrow> (\<exists>ext \<in> set exts. suffix ext path))"
proof -
  have "isExtensionAllowed path exts \<longleftrightarrow> (\<exists>ext \<in> set exts. suffix ext path)"
    by (rule isExtensionAllowed_iff)
  then show ?thesis
    by (simp add: HasSuffix_def)
qed

text \<open>
  Claim C9. Matching is case-sensitive and the empty allow-list rejects every path:
  \<^verbatim>\<open>isExtensionAllowed(path, [])\<close> is false, and under the allow-list \<^verbatim>\<open>{.jpg}\<close> every path
  ending in \<^verbatim>\<open>.Jpg\<close> or \<^verbatim>\<open>.JPG\<close> is rejected while every path ending in \<^verbatim>\<open>.jpg\<close> is
  accepted. The default configuration lists \<^verbatim>\<open>.jpg\<close> and \<^verbatim>\<open>.JPG\<close> separately, and so
  accepts both and still rejects \<^verbatim>\<open>.Jpg\<close>.
\<close>

theorem C9_case_sensitive_and_empty_list:
  "\<not> isExtensionAllowed path []
   \<and> \<not> isExtensionAllowed (p @ ''.Jpg'') [''.jpg'']
   \<and> \<not> isExtensionAllowed (p @ ''.JPG'') [''.jpg'']
   \<and> isExtensionAllowed (p @ ''.jpg'') [''.jpg'']
   \<and> isExtensionAllowed (p @ ''.jpg'') getDefaultConfig
   \<and> isExtensionAllowed (p @ ''.JPG'') getDefaultConfig
   \<and> \<not> isExtensionAllowed (p @ ''.Jpg'') getDefaultConfig"
  by (simp add: getDefaultConfig_def HasSuffix_append_same_length)

subsection \<open>Facts about the merge operations\<close>

lemma lookup_upsertLocal:
  "lookup (upsertLocal db f s p) f' s' =
     (if f' = f \<and> s' = s then
        Some (case lookup db f s of
                None \<Rightarrow> \<lparr>filename = f, size_col = s, local_path = Some p, remote_path = None\<rparr>
              | Some r \<Rightarrow> r\<lparr>local_path := Some p\<rparr>)
      else lookup db f' s')"
  by (induction db) (auto simp: lookup_def)

lemma lookup_upsertRemote:
  "lookup (upsertRemote db f s q) f' s' =
     (if f' = f \<and> s' = s then
        Some (case lookup db f s of
                None \<Rightarrow> \<lparr>filename = f, size_col = s, local_path = None, remote_path = Some q\<rparr>
              | Some r \<Rightarrow> r\<lparr>remote_path := Some q\<rparr>)
      else lookup db f' s')"
  by (induction db) (auto simp: lookup_def)

lemma upsertLocal_noop:
  "lookup db f s = Some r \<Longrightarrow> local_path r = Some p \<Longrightarrow> upsertLocal db f s p = db"
  by (induction db) (auto simp: lookup_def split: if_splits)

lemma upsertRemote_noop:
  "lookup db f s = Some r \<Longrightarrow> remote_path r = Some q \<Longrightarrow> upsertRemote db f s q = db"
  by (induction db) (auto simp: lookup_def split: if_splits)

lemma lookup_key: "lookup db f s = Some r \<Longrightarrow> filename r = f \<and> size_col r = s"
  unfolding lookup_def by (induction db) (auto split: if_splits)

lemma keys_upsertLocal:
  "set (map (\<lambda>r. (filename r, size_col r)) (upsertLocal db f s p)) =
   insert (f, s) (set (map (\<lambda>r. (filename r, size_col r)) db))"
  by (induction db) auto

lemma keys_upsertRemote:
  "set (map (\<lambda>r. (filename r, size_col r)) (upsertRemote db f s p)) =
   insert (f, s) (set (map (\<lambda>r. (filename r, size_col r)) db))"
  by (induction db) auto

lemma pk_ok_upsertLocal: "pk_ok db \<Longrightarrow> pk_ok (upsertLocal db f s p)"
  unfolding pk_ok_def
proof (induction db)
  case Nil
  then show ?case by simp
next
  case (Cons r db)
  then show ?case using keys_upsertLocal[of db f s p] by auto
qed

lemma pk_ok_upsertRemote: "pk_ok db \<Longrightarrow> pk_ok (upsertRemote db f s p)"
  unfolding pk_ok_def
proof (induction db)
  case Nil
  then show ?case by simp
next
  case (Cons r db)
  then show ?case using keys_upsertRemote[of db f s p] by auto
qed

lemma length_upsertLocal:
  "length (upsertLocal db f s p) = (if lookup db f s = None then Suc (length db) else length db)"
  by (induction db) (auto simp: lookup_def)

lemma length_upsertRemote:
  "length (upsertRemote db f s p) = (if lookup db f s = None then Suc (length db) else length db)"
  by (induction db) (auto simp: lookup_def)

lemma lookup_local_after_remotes:
  "map_option local_path (lookup (fold (\<lambda>(g, t, q) d. upsertRemote d g t q) rs db) f s) = Some (Some p)"
  if "map_option local_path (lookup db f s) = Some (Some p)"
  using that
proof (induction rs arbitrary: db)
  case Nil
  then show ?case by simp
next
  case (Cons a rs)
  obtain g t q where a: "a = (g, t, q)" by (cases a)
  have "map_option local_path (lookup (upsertRemote db g t q) f s) = Some (Some p)"
    using Cons.prems by (auto simp: lookup_upsertRemote split: option.splits)
  then show ?case using Cons.IH a by simp
qed

lemma upsertLocal_idem: "upsertLocal (upsertLocal db f s p) f s p = upsertLocal db f s p"
proof -
  obtain r where "lookup (upsertLocal db f s p) f s = Some r" "local_path r = Some p"
    by (auto simp: lookup_upsertLocal split: option.splits)
  then show ?thesis by (rule upsertLocal_noop)
qed

lemma upsertLocal_funpow: "((\<lambda>d. upsertLocal d f s p) ^^ Suc n) db = upsertLocal db f s p"
  by (induction n) (simp_all add: upsertLocal_idem)

lemma upsertLocal_after_remotes:
  "upsertLocal (fold (\<lambda>(g, t, q) d. upsertRemote d g t q) rs (upsertLocal db f s p)) f s p
   = fold (\<lambda>(g, t, q) d. upsertRemote d g t q) rs (upsertLocal db f s p)"
proof -
  have "map_option local_path (lookup (upsertLocal db f s p) f s) = Some (Some p)"
    by (auto simp: lookup_upsertLocal split: option.splits)
  then have "map_option local_path
      (lookup (fold (\<lambda>(g, t, q) d. upsertRemote d g t q) rs (upsertLocal db f s p)) f s) = Some (Some p)"
    by (rule lookup_local_after_remotes)
  then obtain r where
    "lookup (fold (\<lambda>(g, t, q) d. upsertRemote d g t q) rs (upsertLocal db f s p)) f s = Some r"
    "local_path r = Some p"
    by auto
  then show ?thesis by (rule upsertLocal_noop)
qed

lemma upsert_commute_lookup:
  "lookup (upsertLocal (upsertRemote db g t q) f s p) f' s'
   = lookup (upsertRemote (upsertLocal db f s p) g t q) f' s'"
  by (auto simp: lookup_upsertLocal lookup_upsertRemote split: option.splits)

lemma lookup_upsertLocal_relpath:
  "lookup_relpath (upsertLocal_relpath db k) k' =
     (if k' = k then
        Some (case lookup_relpath db k of
                None \<Rightarrow> \<lparr>rel_path = k, on_local = 1, on_remote = 0\<rparr>
              | Some r \<Rightarrow> r\<lparr>on_local := 1\<rparr>)
      else lookup_relpath db k')"
  by (induction db) (auto simp: lookup_relpath_def)

lemma lookup_upsertRemote_relpath:
  "lookup_relpath (upsertRemote_relpath db k) k' =
     (if k' = k then
        Some (case lookup_relpath db k of
                None \<Rightarrow> \<lparr>rel_path = k, on_local = 0, on_remote = 1\<rparr>
              | Some r \<Rightarrow> r\<lparr>on_remote := 1\<rparr>)
      else lookup_relpath db k')"
  by (induction db) (auto simp: lookup_relpath_def)

lemma upsertLocal_relpath_noop:
  "lookup_relpath db k = Some r \<Longrightarrow> on_local r = 1 \<Longrightarrow> upsertLocal_relpath db k = db"
  by (induction db) (auto simp: lookup_relpath_def split: if_splits)

lemma upsertLocal_relpath_idem:
  "upsertLocal_relpath (upsertLocal_relpath db k) k = upsertLocal_relpath db k"
proof -
  obtain r where "lookup_relpath (upsertLocal_relpath db k) k = Some r" "on_local r = 1"
    by (auto simp: lookup_upsertLocal_relpath split: option.splits)
  then show ?thesis by (rule upsertLocal_relpath_noop)
qed

lemma lookup_on_local_after_remotes_relpath:
  "map_option on_local (lookup_relpath (fold (\<lambda>k' d. upsertRemote_relpath d k') ks db) k) = Some 1"
  if "map_option on_local (lookup_relpath db k) = Some 1"
  using that
proof (induction ks arbitrary: db)
  case Nil
  then show ?case by simp
next
  case (Cons a ks)
  have "map_option on_local (lookup_relpath (upsertRemote_relpath db a) k) = Some 1"
    using Cons.prems by (auto simp: lookup_upsertRemote_relpath split: option.splits)
  then show ?case using Cons.IH by simp
qed

lemma upsertLocal_relpath_after_remotes:
  "upsertLocal_relpath (fold (\<lambda>k' d. upsertRemote_relpath d k') ks (upsertLocal_relpath db k)) k
   = fold (\<lambda>k' d. upsertRemote_relpath d k') ks (upsertLocal_relpath db k)"
proof -
  have "map_option on_local (lookup_relpath (upsertLocal_relpath db k) k) = Some 1"
    by (auto simp: lookup_upsertLocal_relpath split: option.splits)
  then have "map_option on_local
      (lookup_relpath (fold (\<lambda>k' d. upsertRemote_relpath d k') ks (upsertLocal_relpath db k)) k) = Some 1"
    by (rule lookup_on_local_after_remotes_relpath)
  then obtain r where
    "lookup_relpath (fold (\<lambda>k' d. upsertRemote_relpath d k') ks (upsertLocal_relpath db k)) k = Some r"
    "on_local r = 1"
    by auto
  then show ?thesis by (rule upsertLocal_relpath_noop)
qed

lemma upsert_commute_lookup_relpath:
  "lookup_relpath (upsertLocal_relpath (upsertRemote_relpath db k2) k1) k'
   = lookup_relpath (upsertRemote_relpath (upsertLocal_relpath db k1) k2) k'"
  by (auto simp: lookup_upsertLocal_relpath lookup_upsertRemote_relpath split: option.splits)

text \<open>
  Claim C1. The merge is non-destructive in both variants. A remote merge leaves the
  local path of every row as it was (a row it creates has no local path), and a local
  merge leaves every remote path as it was; merging one identity from both origins, in
  either order, gives a row that holds both paths. In the relative-path variant the same
  holds of the flags \<^verbatim>\<open>on_local\<close> and \<^verbatim>\<open>on_remote\<close>.
\<close>

theorem C1_non_destructive_merge:
  "map_option local_path (lookup (upsertRemote db f s q) f' s')
     = (if f' = f \<and> s' = s \<and> lookup db f s = None then Some None
        else map_option local_path (lookup db f' s'))
   \<and> map_option remote_path (lookup (upsertLocal db f s p) f' s')
     = (if f' = f \<and> s' = s \<and> lookup db f s = None then Some None
        else map_option remote_path (lookup db f' s'))
   \<and> map_option (\<lambda>r. (local_path r, remote_path r))
        (lookup (upsertRemote (upsertLocal db f s p) f s q) f s) = Some (Some p, Some q)
   \<and> map_option (\<lambda>r. (local_path r, remote_path r))
        (lookup (upsertLocal (upsertRemote db f s q) f s p) f s) = Some (Some p, Some q)
   \<and> map_option on_local (lookup_relpath (upsertRemote_relpath fs k) k')
     = (if k' = k \<and> lookup_relpath fs k = None then Some 0
        else map_option on_local (lookup_relpath fs k'))
   \<and> map_option on_remote (lookup_relpath (upsertLocal_relpath fs k) k')
     = (if k' = k \<and> lookup_relpath fs k = None then Some 0
        else map_option on_remote (lookup_relpath fs k'))
   \<and> map_option (\<lambda>r. (on_local r, on_remote r))
        (lookup_relpath (upsertRemote_relpath (upsertLocal_relpath fs k) k) k) = Some (1, 1)
   \<and> map_option (\<lambda>r. (on_local r, on_remote r))
        (lookup_relpath (upsertLocal_relpath (upsertRemote_relpath fs k) k) k) = Some (1, 1)"
proof -
  have a: "map_option local_path (lookup (upsertRemote db f s q) f' s')
     = (if f' = f \<and> s' = s \<and> lookup db f s = None then Some None
        else map_option local_path (lookup db f' s'))"
    by (auto simp: lookup_upsertRemote split: option.splits)
  have b: "map_option remote_path (lookup (upsertLocal db f s p) f' s')
     = (if f' = f \<and> s' = s \<and> lookup db f s = None then Some None
        else map_option remote_path (lookup db f' s'))"
    by (auto simp: lookup_upsertLocal split: option.splits)
  have c: "map_option (\<lambda>r. (local_path r, remote_path r))
        (lookup (upsertRemote (upsertLocal db f s p) f s q) f s) = Some (Some p, Some q)"
    by (auto simp: lookup_upsertRemote lookup_upsertLocal split: option.splits)
  have d: "map_option (\<lambda>r. (local_path r, remote_path r))
        (lookup (upsertLocal (upsertRemote db f s q) f s p) f s) = Some (Some p, Some q)"
    by (auto simp: lookup_upsertRemote lookup_upsertLocal split: option.splits)
  have e: "map_option on_local (lookup_relpath (upsertRemote_relpath fs k) k')
     = (if k' = k \<and> lookup_relpath fs k = None then Some 0
        else map_option on_local (lookup_relpath fs k'))"
    by (auto simp: lookup_upsertRemote_relpath split: option.splits)
  have g: "map_option on_remote (lookup_relpath (upsertLocal_relpath fs k) k')
     = (if k' = k \<and> lookup_relpath fs k = None then Some 0
        else map_option on_remote (lookup_relpath fs k'))"
    by (auto simp: lookup_upsertLocal_relpath split: option.splits)
  have h: "map_option (\<lambda>r. (on_local r, on_remote r))
        (lookup_relpath (upsertRemote_relpath (upsertLocal_relpath fs k) k) k) = Some (1, 1)"
    by (auto simp: lookup_upsertRemote_relpath lookup_upsertLocal_relpath split: option.splits)
  have i: "map_option (\<lambda>r. (on_local r, on_remote r))
        (lookup_relpath (upsertLocal_relpath (upsertRemote_relpath fs k) k) k) = Some (1, 1)"
    by (auto simp: lookup_upsertRemote_relpath lookup_upsertLocal_relpath split: option.splits)
  from a b c d e g h i show ?thesis by blast
qed

text \<open>
  Claim C2. The local merge is idempotent in both variants: a second call with the same
  arguments changes nothing, and neither does any number of further calls, nor a further
  call after any sequence of remote merges on any identities. A local and a remote merge
  applied in either order leave every row the same.
\<close>

theorem C2_merge_idempotent:
  "upsertLocal (upsertLocal db f s p) f s p = upsertLocal db f s p
   \<and> ((\<lambda>d. upsertLocal d f s p) ^^ Suc n) db = upsertLocal db f s p
   \<and> upsertLocal (fold (\<lambda>(g, t, q) d. upsertRemote d g t q) rs (upsertLocal db f s p)) f s p
       = fold (\<lambda>(g, t, q) d. upsertRemote d g t q) rs (upsertLocal db f s p)
   \<and> lookup (upsertLocal (upsertRemote db g t q) f s p) f' s'
       = lookup (upsertRemote (upsertLocal db f s p) g t q) f' s'
   \<and> upsertLocal_relpath (upsertLocal_relpath fs k) k = upsertLocal_relpath fs k
   \<and> upsertLocal_relpath (fold (\<lambda>k' d. upsertRemote_relpath d k') ks (upsertLocal_relpath fs k)) k
       = fold (\<lambda>k' d. upsertRemote_relpath d k') ks (upsertLocal_relpath fs k)
   \<and> lookup_relpath (upsertLocal_relpath (upsertRemote_relpath fs k2) k) k'
       = lookup_relpath (upsertRemote_relpath (upsertLocal_relpath fs k) k2) k'"
  by (intro conjI upsertLocal_idem upsertLocal_funpow upsertLocal_after_remotes
      upsert_commute_lookup upsertLocal_relpath_idem upsertLocal_relpath_after_remotes
      upsert_commute_lookup_relpath)

text \<open>
  Claim C10. The last observation of an origin wins. When a row for the identity exists,
  a further local merge sets its local path to the new one and changes nothing else in
  it, and a further remote merge does the same with the remote path; no row is added and
  every other row stays as it was.
\<close>

theorem C10_last_observation_wins:
  assumes "lookup db f s = Some r"
  shows "lookup (upsertLocal db f s p') f' s'
           = (if f' = f \<and> s' = s then Some (r\<lparr>local_path := Some p'\<rparr>) else lookup db f' s')
       \<and> lookup (upsertRemote db f s q') f' s'
           = (if f' = f \<and> s' = s then Some (r\<lparr>remote_path := Some q'\<rparr>) else lookup db f' s')
       \<and> length (upsertLocal db f s p') = length db
       \<and> length (upsertRemote db f s q') = length db"
  using assms
  by (simp add: lookup_upsertLocal lookup_upsertRemote length_upsertLocal length_upsertRemote)

theorem C10_last_observation_wins_witness:
  "lookup (upsertRemote (upsertLocal [] ''img1.jpg'' 1024 ''/local/2023/img1.jpg'')
             ''img1.jpg'' 1024 ''/remote/backup/img1.jpg'') ''img1.jpg'' 1024
     = Some \<lparr>filename = ''img1.jpg'', size_col = 1024,
             local_path = Some ''/local/2023/img1.jpg'',
             remote_path = Some ''/remote/backup/img1.jpg''\<rparr>
   \<and> lookup (upsertLocal
               (upsertRemote (upsertLocal [] ''img1.jpg'' 1024 ''/local/2023/img1.jpg'')
                  ''img1.jpg'' 1024 ''/remote/backup/img1.jpg'')
               ''img1.jpg'' 1024 ''/local/2024/img1.jpg'') ''img1.jpg'' 1024
     = Some \<lparr>filename = ''img1.jpg'', size_col = 1024,
             local_path = Some ''/local/2024/img1.jpg'',
             remote_path = Some ''/remote/backup/img1.jpg''\<rparr>
   \<and> lookup (upsertRemote
               (upsertRemote (upsertLocal [] ''img1.jpg'' 1024 ''/local/2023/img1.jpg'')
                  ''img1.jpg'' 1024 ''/remote/backup/img1.jpg'')
               ''img1.jpg'' 1024 ''/remote/new/img1.jpg'') ''img1.jpg'' 1024
     = Some \<lparr>filename = ''img1.jpg'', size_col = 1024,
             local_path = Some ''/local/2023/img1.jpg'',
             remote_path = Some ''/remote/new/img1.jpg''\<rparr>"
proof -
  have h: "lookup (upsertRemote (upsertLocal [] ''img1.jpg'' 1024 ''/local/2023/img1.jpg'')
             ''img1.jpg'' 1024 ''/remote/backup/img1.jpg'') ''img1.jpg'' 1024
     = Some \<lparr>filename = ''img1.jpg'', size_col = 1024,
             local_path = Some ''/local/2023/img1.jpg'',
             remote_path = Some ''/remote/backup/img1.jpg''\<rparr>"
    by (simp add: lookup_def)
  show ?thesis
    using h C10_last_observation_wins [OF h, of "''/local/2024/img1.jpg''" "''img1.jpg''" 1024
        "''/remote/new/img1.jpg''"]
    by simp
qed

subsection \<open>Facts about the report queries\<close>

lemma present_flags:
  "local_present r \<longleftrightarrow> onLocal r" "remote_present r \<longleftrightarrow> onRemote r" "remote_absent r \<longleftrightarrow> \<not> onRemote r"
  by (auto simp: local_present_def remote_present_def remote_absent_def onLocal_def onRemote_def
      split: option.splits)

lemma set_query_missing:
  "set (query_missing db) = {p. \<exists>r \<in> set db. onLocal r \<and> \<not> onRemote r \<and> local_path r = Some p}"
proof -
  have eq: "col_text (local_path r) = p \<longleftrightarrow> local_path r = Some p" if "onLocal r" for r p
    using that by (auto simp: col_text_def onLocal_def split: option.splits)
  show ?thesis
  proof (intro set_eqI iffI)
    fix p assume "p \<in> set (query_missing db)"
    then obtain r where "r \<in> set db" "onLocal r" "\<not> onRemote r" "p = col_text (local_path r)"
      by (auto simp: query_missing_def present_flags)
    then show "p \<in> {p. \<exists>r \<in> set db. onLocal r \<and> \<not> onRemote r \<and> local_path r = Some p}"
      using eq by auto
  next
    fix p assume "p \<in> {p. \<exists>r \<in> set db. onLocal r \<and> \<not> onRemote r \<and> local_path r = Some p}"
    then obtain r where r: "r \<in> set db" "onLocal r" "\<not> onRemote r" "local_path r = Some p"
      by auto
    then have "col_text (local_path r) = p" by (simp add: col_text_def)
    with r show "p \<in> set (query_missing db)"
      by (force simp: query_missing_def present_flags)
  qed
qed

lemma length_query_missing:
  "length (query_missing db) = length (filter (\<lambda>r. onLocal r \<and> \<not> onRemote r) db)"
  by (simp add: query_missing_def present_flags)

lemma set_query_missing_relpath:
  "set (query_missing_relpath fs) = {rel_path r | r. r \<in> set fs \<and> on_local r = 1 \<and> on_remote r = 0}"
  by (auto simp: query_missing_relpath_def)

lemma example_missing: "query_missing
       (upsertRemote (upsertLocal (upsertRemote (upsertLocal [] ''fileA.jpg'' 100 ''/local/fileA.jpg'')
          ''fileB.jpg'' 200 ''/remote/fileB.jpg'') ''fileC.jpg'' 300 ''/local/fileC.jpg'')
          ''fileC.jpg'' 300 ''/remote/fileC.jpg'')
     = [''/local/fileA.jpg'']"
  by (simp add: query_missing_def local_present_def remote_absent_def col_text_def)

lemma example_missing_relpath: "runReport_relpath
       (upsertRemote_relpath (upsertLocal_relpath (upsertRemote_relpath
          (upsertLocal_relpath [] ''fileA.jpg'') ''fileB.jpg'') ''fileC.jpg'') ''fileC.jpg'')
     = ([''fileA.jpg''], 1)"
  by (simp add: runReport_relpath_def query_missing_relpath_def)

lemma pk_ok_same_key:
  "pk_ok db \<Longrightarrow> p1 \<in> set db \<Longrightarrow> p2 \<in> set db \<Longrightarrow> filename p1 = filename p2 \<Longrightarrow>
   size_col p1 = size_col p2 \<Longrightarrow> p1 = p2"
  unfolding pk_ok_def by (auto simp: distinct_map inj_on_def)

lemma example_wrong_size: "query_wrong_size (upsertRemote (upsertLocal [] ''img.jpg'' 100 ''/local/img.jpg'')
            ''img.jpg'' 200 ''/remote/img.jpg'')
         = [(''/local/img.jpg'', 100, ''/remote/img.jpg'', 200)]"
  by (simp add: query_wrong_size_def local_present_def remote_absent_def remote_present_def col_text_def)

lemma example_wrong_size_both: "query_wrong_size
       (upsertRemote (upsertLocal (upsertLocal [] ''img.jpg'' 100 ''/local/a/img.jpg'')
          ''img.jpg'' 200 ''/local/b/img.jpg'') ''img.jpg'' 200 ''/remote/b/img.jpg'')
     = [(''/local/a/img.jpg'', 100, ''/remote/b/img.jpg'', 200)]
   \<and> spec_size_mismatch
       (upsertRemote (upsertLocal (upsertLocal [] ''img.jpg'' 100 ''/local/a/img.jpg'')
          ''img.jpg'' 200 ''/local/b/img.jpg'') ''img.jpg'' 200 ''/remote/b/img.jpg'')
     = []"
  by (simp add: query_wrong_size_def spec_size_mismatch_def local_present_def remote_absent_def
      remote_present_def col_text_def onLocal_def onRemote_def)

lemma keys_bump: "fst ` set (bump m k) = insert k (fst ` set m)"
  by (induction m k rule: bump.induct) auto

lemma distinct_bump: "distinct (map fst m) \<Longrightarrow> distinct (map fst (bump m k))"
proof (induction m k rule: bump.induct)
  case (1 k)
  then show ?case by simp
next
  case (2 k' c m k)
  then show ?case using keys_bump[of m k] by auto
qed

lemma count_of_bump: "count_of (bump m k) d = (if d = k then count_of m k + 1 else count_of m d)"
  by (induction m k rule: bump.induct) (auto simp: count_of_def)

lemma sum_bump: "sum_list (map snd (bump m k)) = sum_list (map snd m) + 1"
  by (induction m k rule: bump.induct) auto

lemma keys_summary:
  "fst ` set (foldl (\<lambda>m p. bump m (Dir p)) m0 rows) = fst ` set m0 \<union> Dir ` set rows"
  by (induction rows arbitrary: m0) (simp_all add: keys_bump)

lemma distinct_summary:
  "distinct (map fst m0) \<Longrightarrow> distinct (map fst (foldl (\<lambda>m p. bump m (Dir p)) m0 rows))"
  by (induction rows arbitrary: m0) (auto simp: distinct_bump)

lemma count_of_summary:
  "count_of (foldl (\<lambda>m p. bump m (Dir p)) m0 rows) d
   = count_of m0 d + length (filter (\<lambda>p. Dir p = d) rows)"
  by (induction rows arbitrary: m0) (auto simp: count_of_bump)

lemma sum_summary:
  "sum_list (map snd (foldl (\<lambda>m p. bump m (Dir p)) m0 rows)) = sum_list (map snd m0) + length rows"
  by (induction rows arbitrary: m0) (auto simp: sum_bump)

lemma count_of_keys: "distinct (map fst m) \<Longrightarrow> map (count_of m) (map fst m) = map snd m"
  by (induction m) (auto simp: count_of_def image_iff split: option.splits)

lemma summary_keys_sorted: "sorted_wrt (<) (map fst (summary_lines rows))"
proof -
  have "distinct (map fst (foldl (\<lambda>m p. bump m (Dir p)) [] rows))"
    by (rule distinct_summary) simp
  then show ?thesis
    by (simp add: summary_lines_def Let_def comp_def strict_sorted_iff)
qed

lemma summary_keys_set: "set (map fst (summary_lines rows)) = Dir ` set rows"
  using keys_summary[of "[]" rows] by (simp add: summary_lines_def Let_def comp_def)

lemma summary_counts:
  "map snd (summary_lines rows)
   = map (\<lambda>d. length (filter (\<lambda>p. Dir p = d) rows)) (map fst (summary_lines rows))"
proof -
  have "count_of (foldl (\<lambda>m p. bump m (Dir p)) [] rows) d = length (filter (\<lambda>p. Dir p = d) rows)" for d
    by (simp add: count_of_summary) (simp add: count_of_def)
  then show ?thesis
    by (simp add: summary_lines_def Let_def comp_def)
qed

lemma summary_total: "sum_list (map snd (summary_lines rows)) = length rows"
proof -
  let ?m = "foldl (\<lambda>m p. bump m (Dir p)) [] rows"
  have d: "distinct (map fst ?m)" by (rule distinct_summary) simp
  have "sum_list (map snd (summary_lines rows)) = sum_list (map (count_of ?m) (sort (map fst ?m)))"
    by (simp add: summary_lines_def Let_def comp_def)
  also have "\<dots> = sum (count_of ?m) (set (sort (map fst ?m)))"
    using d by (intro sum_list_distinct_conv_sum_set) simp
  also have "\<dots> = sum_list (map (count_of ?m) (map fst ?m))"
    using d sum_list_distinct_conv_sum_set[of "map fst ?m" "count_of ?m"] by simp
  also have "\<dots> = sum_list (map snd ?m)"
    using d by (simp only: count_of_keys)
  also have "\<dots> = length rows"
    by (simp add: sum_summary)
  finally show ?thesis .
qed

lemma set_query_wrong_size_raw:
  "set (query_wrong_size db) =
     {(col_text (local_path p1), size_col p1, col_text (remote_path p2), size_col p2) | p1 p2.
        p1 \<in> set db \<and> p2 \<in> set db \<and> filename p1 = filename p2
        \<and> local_present p1 \<and> remote_absent p1 \<and> remote_present p2}"
  unfolding query_wrong_size_def by auto

lemma col_text_onLocal: "onLocal r \<Longrightarrow> local_path r = Some (col_text (local_path r))"
  by (auto simp: onLocal_def col_text_def split: option.splits)

lemma col_text_onRemote: "onRemote r \<Longrightarrow> remote_path r = Some (col_text (remote_path r))"
  by (auto simp: onRemote_def col_text_def split: option.splits)

lemma set_query_wrong_size:
  "set (query_wrong_size db) =
     {(lp, size_col p1, rp, size_col p2) | lp rp p1 p2.
        p1 \<in> set db \<and> p2 \<in> set db \<and> filename p1 = filename p2
        \<and> onLocal p1 \<and> \<not> onRemote p1 \<and> onRemote p2
        \<and> local_path p1 = Some lp \<and> remote_path p2 = Some rp}"
  (is "?L = ?R")
proof (intro set_eqI iffI)
  fix x assume "x \<in> ?L"
  then have "\<exists>p1 p2. x = (col_text (local_path p1), size_col p1, col_text (remote_path p2), size_col p2)
      \<and> p1 \<in> set db \<and> p2 \<in> set db \<and> filename p1 = filename p2
      \<and> onLocal p1 \<and> \<not> onRemote p1 \<and> onRemote p2"
    unfolding set_query_wrong_size_raw present_flags by simp
  then obtain p1 p2 where
    x: "x = (col_text (local_path p1), size_col p1, col_text (remote_path p2), size_col p2)"
    and p: "p1 \<in> set db" "p2 \<in> set db" "filename p1 = filename p2"
    and f: "onLocal p1" "\<not> onRemote p1" "onRemote p2"
    by auto
  have c1: "local_path p1 = Some (col_text (local_path p1))"
    using f(1) by (rule col_text_onLocal)
  have c2: "remote_path p2 = Some (col_text (remote_path p2))"
    using f(3) by (rule col_text_onRemote)
  have "\<exists>lp rp q1 q2. x = (lp, size_col q1, rp, size_col q2)
      \<and> q1 \<in> set db \<and> q2 \<in> set db \<and> filename q1 = filename q2
      \<and> onLocal q1 \<and> \<not> onRemote q1 \<and> onRemote q2
      \<and> local_path q1 = Some lp \<and> remote_path q2 = Some rp"
    apply (rule exI [of _ "col_text (local_path p1)"])
    apply (rule exI [of _ "col_text (remote_path p2)"])
    apply (rule exI [of _ p1])
    apply (rule exI [of _ p2])
    using x p f c1 c2 apply (intro conjI)
            apply assumption+
    done
  then show "x \<in> ?R" by simp
next
  fix x assume "x \<in> ?R"
  then have "\<exists>lp rp q1 q2. x = (lp, size_col q1, rp, size_col q2)
      \<and> q1 \<in> set db \<and> q2 \<in> set db \<and> filename q1 = filename q2
      \<and> onLocal q1 \<and> \<not> onRemote q1 \<and> onRemote q2
      \<and> local_path q1 = Some lp \<and> remote_path q2 = Some rp"
    by simp
  then obtain lp rp p1 p2 where
    x: "x = (lp, size_col p1, rp, size_col p2)"
    and p: "p1 \<in> set db" "p2 \<in> set db" "filename p1 = filename p2"
    and f: "onLocal p1" "\<not> onRemote p1" "onRemote p2"
    and c: "local_path p1 = Some lp" "remote_path p2 = Some rp"
    by auto
  from c have d: "col_text (local_path p1) = lp" "col_text (remote_path p2) = rp"
    by (simp_all add: col_text_def)
  have "\<exists>q1 q2. x = (col_text (local_path q1), size_col q1, col_text (remote_path q2), size_col q2)
      \<and> q1 \<in> set db \<and> q2 \<in> set db \<and> filename q1 = filename q2
      \<and> onLocal q1 \<and> \<not> onRemote q1 \<and> onRemote q2"
    apply (rule exI [of _ p1])
    apply (rule exI [of _ p2])
    using x p f d apply simp
    done
  then show "x \<in> ?L"
    unfolding set_query_wrong_size_raw present_flags by simp
qed

lemma wrong_size_sizes_differ:
  assumes "pk_ok db" "p1 \<in> set db" "p2 \<in> set db" "filename p1 = filename p2"
    "\<not> onRemote p1" "onRemote p2"
  shows "size_col p1 \<noteq> size_col p2"
proof
  assume "size_col p1 = size_col p2"
  with assms have "p1 = p2" by (auto dest: pk_ok_same_key)
  with assms show False by simp
qed

lemma example_summary: "runReport False False
       (upsertLocal (upsertLocal (upsertLocal [] ''c.jpg'' 30 ''dirY/c.jpg'')
          ''a.jpg'' 10 ''dirX/a.jpg'') ''b.jpg'' 20 ''dirX/b.jpg'')
     = Summary [(''dirX'', 2), (''dirY'', 1)] 3"
  by (simp add: runReport_def query_missing_def local_present_def remote_absent_def col_text_def
      summary_lines_def Dir_def Clean_def count_of_def)

text \<open>
  Claim C3. The missing-from-remote query returns the local paths of exactly the rows
  whose local flag is set and whose remote flag is not (the flags as \<^verbatim>\<open>assertFileState\<close>
  reads them), one result per such row. For the store of the repository's test, A merged
  from local only, B from remote only and C from both, the flat report lists A alone and
  counts 1. The relative-path variant selects the rows with \<^verbatim>\<open>on_local = 1\<close> and
  \<^verbatim>\<open>on_remote = 0\<close>, and gives the same answer on the same scenario.
\<close>

theorem C3_missing_from_remote:
  "set (query_missing db)
     = {p. \<exists>r \<in> set db. onLocal r \<and> \<not> onRemote r \<and> local_path r = Some p}
   \<and> length (query_missing db) = length (filter (\<lambda>r. onLocal r \<and> \<not> onRemote r) db)
   \<and> runReport True False db = Listing (query_missing db) (length (query_missing db))
   \<and> runReport True False
        (upsertRemote (upsertLocal (upsertRemote (upsertLocal [] ''fileA.jpg'' 100 ''/local/fileA.jpg'')
           ''fileB.jpg'' 200 ''/remote/fileB.jpg'') ''fileC.jpg'' 300 ''/local/fileC.jpg'')
           ''fileC.jpg'' 300 ''/remote/fileC.jpg'')
       = Listing [''/local/fileA.jpg''] 1
   \<and> set (query_missing_relpath fs)
       = {rel_path r | r. r \<in> set fs \<and> on_local r = 1 \<and> on_remote r = 0}
   \<and> runReport_relpath fs = (query_missing_relpath fs, length (query_missing_relpath fs))
   \<and> runReport_relpath
        (upsertRemote_relpath (upsertLocal_relpath (upsertRemote_relpath
           (upsertLocal_relpath [] ''fileA.jpg'') ''fileB.jpg'') ''fileC.jpg'') ''fileC.jpg'')
       = ([''fileA.jpg''], 1)"
proof -
  have "runReport True False
        (upsertRemote (upsertLocal (upsertRemote (upsertLocal [] ''fileA.jpg'' 100 ''/local/fileA.jpg'')
           ''fileB.jpg'' 200 ''/remote/fileB.jpg'') ''fileC.jpg'' 300 ''/local/fileC.jpg'')
           ''fileC.jpg'' 300 ''/remote/fileC.jpg'')
       = Listing [''/local/fileA.jpg''] 1"
    unfolding runReport_def example_missing by simp
  moreover have "runReport True False db = Listing (query_missing db) (length (query_missing db))"
    by (simp add: runReport_def)
  moreover have "runReport_relpath fs = (query_missing_relpath fs, length (query_missing_relpath fs))"
    by (simp add: runReport_relpath_def)
  ultimately show ?thesis
    using set_query_missing [of db] length_query_missing [of db]
      set_query_missing_relpath [of fs] example_missing_relpath
    by (intro conjI) assumption+
qed

text \<open>
  Claim C4, as stated, asks that the instance on the remote side of a reported pair be
  remote-only. The query of the program asks only that it be present on the remote. With
  \<^verbatim>\<open>img.jpg\<close> of size 100 seen locally only and \<^verbatim>\<open>img.jpg\<close> of size 200 seen on both
  sides, the program reports the pair while the join the specification words is empty.
\<close>

theorem C4_remote_only_counterexample:
  "query_wrong_size
       (upsertRemote (upsertLocal (upsertLocal [] ''img.jpg'' 100 ''/local/a/img.jpg'')
          ''img.jpg'' 200 ''/local/b/img.jpg'') ''img.jpg'' 200 ''/remote/b/img.jpg'')
     = [(''/local/a/img.jpg'', 100, ''/remote/b/img.jpg'', 200)]
   \<and> spec_size_mismatch
       (upsertRemote (upsertLocal (upsertLocal [] ''img.jpg'' 100 ''/local/a/img.jpg'')
          ''img.jpg'' 200 ''/local/b/img.jpg'') ''img.jpg'' 200 ''/remote/b/img.jpg'')
     = []"
  by (rule example_wrong_size_both)

text \<open>
  Claim C4, amended. In a table that satisfies its primary key, the mismatch query returns
  exactly the tuples (local path, local size, remote path, remote size) of the pairs of
  rows that share a filename, where the first is present locally and not remotely and the
  second, of a different size, is present remotely (whether or not it is also present
  locally). For local \<^verbatim>\<open>img.jpg\<close> of size 100 and remote \<^verbatim>\<open>img.jpg\<close> of size 200 it returns
  the one pair (local 100, remote 200), with total 1.
\<close>

theorem C4_size_mismatch_query:
  assumes "pk_ok db"
  shows "set (query_wrong_size db) =
           {(lp, size_col p1, rp, size_col p2) | lp rp p1 p2.
              p1 \<in> set db \<and> p2 \<in> set db \<and> filename p1 = filename p2
              \<and> size_col p1 \<noteq> size_col p2
              \<and> onLocal p1 \<and> \<not> onRemote p1 \<and> onRemote p2
              \<and> local_path p1 = Some lp \<and> remote_path p2 = Some rp}
       \<and> runReport isVerbose True db
           = Mismatches (query_wrong_size db) (length (query_wrong_size db))
       \<and> runReport isVerbose True
           (upsertRemote (upsertLocal [] ''img.jpg'' 100 ''/local/img.jpg'')
              ''img.jpg'' 200 ''/remote/img.jpg'')
           = Mismatches [(''/local/img.jpg'', 100, ''/remote/img.jpg'', 200)] 1"
proof -
  have "set (query_wrong_size db) =
           {(lp, size_col p1, rp, size_col p2) | lp rp p1 p2.
              p1 \<in> set db \<and> p2 \<in> set db \<and> filename p1 = filename p2
              \<and> size_col p1 \<noteq> size_col p2
              \<and> onLocal p1 \<and> \<not> onRemote p1 \<and> onRemote p2
              \<and> local_path p1 = Some lp \<and> remote_path p2 = Some rp}"
  proof -
    have "(p1 \<in> set db \<and> p2 \<in> set db \<and> filename p1 = filename p2
            \<and> onLocal p1 \<and> \<not> onRemote p1 \<and> onRemote p2
            \<and> local_path p1 = Some lp \<and> remote_path p2 = Some rp)
        \<longleftrightarrow> (p1 \<in> set db \<and> p2 \<in> set db \<and> filename p1 = filename p2
            \<and> size_col p1 \<noteq> size_col p2
            \<and> onLocal p1 \<and> \<not> onRemote p1 \<and> onRemote p2
            \<and> local_path p1 = Some lp \<and> remote_path p2 = Some rp)" for p1 p2 lp rp
      using wrong_size_sizes_differ [OF assms, of p1 p2] by auto
    then show ?thesis
      unfolding set_query_wrong_size by simp
  qed
  moreover have "runReport isVerbose True db
           = Mismatches (query_wrong_size db) (length (query_wrong_size db))"
    by (simp add: runReport_def)
  moreover have "runReport isVerbose True
           (upsertRemote (upsertLocal [] ''img.jpg'' 100 ''/local/img.jpg'')
              ''img.jpg'' 200 ''/remote/img.jpg'')
           = Mismatches [(''/local/img.jpg'', 100, ''/remote/img.jpg'', 200)] 1"
    unfolding runReport_def example_wrong_size by simp
  ultimately show ?thesis by blast
qed

theorem C4_size_mismatch_query_witness:
  "pk_ok (upsertRemote (upsertLocal (upsertLocal [] ''img.jpg'' 100 ''/local/a/img.jpg'')
          ''img.jpg'' 200 ''/local/b/img.jpg'') ''img.jpg'' 200 ''/remote/b/img.jpg'')
   \<and> runReport False True
       (upsertRemote (upsertLocal (upsertLocal [] ''img.jpg'' 100 ''/local/a/img.jpg'')
          ''img.jpg'' 200 ''/local/b/img.jpg'') ''img.jpg'' 200 ''/remote/b/img.jpg'')
     = Mismatches [(''/local/a/img.jpg'', 100, ''/remote/b/img.jpg'', 200)] 1"
proof -
  have h: "pk_ok (upsertRemote (upsertLocal (upsertLocal [] ''img.jpg'' 100 ''/local/a/img.jpg'')
          ''img.jpg'' 200 ''/local/b/img.jpg'') ''img.jpg'' 200 ''/remote/b/img.jpg'')"
    by (simp add: pk_ok_def)
  show ?thesis
    using h C4_size_mismatch_query [OF h, of False] example_wrong_size_both
    unfolding runReport_def by simp
qed

text \<open>
  Claim C8. Without \<^verbatim>\<open>-v\<close> and \<^verbatim>\<open>-wrong_size\<close> the report is the summary by directory of
  the missing-from-remote rows. Its lines are in strictly increasing order of directory,
  there is one line for each directory that holds a result, each line carries the number of
  results in that directory, and the counts add up to the total. Two local-only files
  under \<^verbatim>\<open>dirX\<close> and one under \<^verbatim>\<open>dirY\<close> give \<^verbatim>\<open>dirX: 2\<close>, then \<^verbatim>\<open>dirY: 1\<close>, and total 3.
\<close>

theorem C8_grouped_report:
  "runReport False False db
     = Summary (summary_lines (query_missing db)) (length (query_missing db))
   \<and> sorted_wrt (<) (map fst (summary_lines rows))
   \<and> set (map fst (summary_lines rows)) = Dir ` set rows
   \<and> map snd (summary_lines rows)
       = map (\<lambda>d. length (filter (\<lambda>p. Dir p = d) rows)) (map fst (summary_lines rows))
   \<and> sum_list (map snd (summary_lines rows)) = length rows
   \<and> runReport False False
       (upsertLocal (upsertLocal (upsertLocal [] ''c.jpg'' 30 ''dirY/c.jpg'')
          ''a.jpg'' 10 ''dirX/a.jpg'') ''b.jpg'' 20 ''dirX/b.jpg'')
     = Summary [(''dirX'', 2), (''dirY'', 1)] 3"
proof -
  have "runReport False False db
     = Summary (summary_lines (query_missing db)) (length (query_missing db))"
    by (simp add: runReport_def)
  then show ?thesis
    using summary_keys_sorted [of rows] summary_keys_set [of rows] summary_counts [of rows]
      summary_total [of rows] example_summary
    by (intro conjI) assumption+
qed

subsection \<open>Facts about the remote scan\<close>

lemma scanner_tokens_line:
  "CHR 0x0A \<notin> set l \<Longrightarrow>
   scanner_tokens pending (l @ CHR 0x0A # rest) =
     (if length (pending @ l) \<ge> MaxScanTokenSize then []
      else dropCR (pending @ l) # scanner_tokens [] rest)"
  by (induction l arbitrary: pending) auto

lemma scanner_tokens_listing:
  "\<forall>l \<in> set ls. scannable l \<Longrightarrow> scanner_tokens [] (listing ls) = map dropCR ls"
proof (induction ls)
  case Nil
  then show ?case by (simp add: listing_def)
next
  case (Cons l ls)
  have l: "CHR 0x0A \<notin> set l" "\<not> length l \<ge> MaxScanTokenSize"
    using Cons.prems by (auto simp: scannable_def)
  have "listing (l # ls) = l @ CHR 0x0A # listing ls"
    by (simp add: listing_def)
  then have "scanner_tokens [] (listing (l # ls)) = dropCR l # scanner_tokens [] (listing ls)"
    using l by (simp add: scanner_tokens_line)
  then show ?case using Cons by simp
qed

text \<open>
  A line of 64 KiB or more ends the loop: the lines before it are read, the line and all
  that follows it are not.
\<close>

lemma scanner_stops_at_long_line:
  assumes "\<forall>l \<in> set pre. scannable l" and "CHR 0x0A \<notin> set long"
    and "length long \<ge> MaxScanTokenSize"
  shows "scanner_tokens [] (listing (pre @ long # post)) = map dropCR pre"
  using assms(1)
proof (induction pre)
  case Nil
  have "listing (long # post) = long @ CHR 0x0A # listing post"
    by (simp add: listing_def)
  then show ?case using assms(2,3) by (simp add: scanner_tokens_line)
next
  case (Cons l pre)
  have l: "CHR 0x0A \<notin> set l" "\<not> length l \<ge> MaxScanTokenSize"
    using Cons.prems by (auto simp: scannable_def)
  have "listing ((l # pre) @ long # post) = l @ CHR 0x0A # listing (pre @ long # post)"
    by (simp add: listing_def)
  then have "scanner_tokens [] (listing ((l # pre) @ long # post))
      = dropCR l # scanner_tokens [] (listing (pre @ long # post))"
    using l by (simp add: scanner_tokens_line)
  then show ?case using Cons by simp
qed

lemma remote_lines_Cons:
  "remote_lines exts exec db c (line # rest) =
     (case parse_line line of
        None \<Rightarrow> remote_lines exts exec db c rest
      | Some (name, sz, fullPath) \<Rightarrow>
          if isExtensionAllowed name exts
          then (case exec c of
                  Some err \<Rightarrow> remote_lines exts exec db (c + 1) rest
                | None \<Rightarrow> remote_lines exts exec (upsertRemote db name sz fullPath) (c + 1) rest)
          else remote_lines exts exec db c rest)"
  by (simp add: parse_line_def Let_def split: sum.splits)

lemma remote_lines_append:
  "remote_lines exts exec db c (xs @ ys) =
     (case remote_lines exts exec db c xs of (db', c') \<Rightarrow> remote_lines exts exec db' c' ys)"
proof (induction xs arbitrary: db c)
  case Nil
  then show ?case by simp
next
  case (Cons x xs)
  show ?case
    by (simp only: append_Cons remote_lines_Cons Cons.IH split: option.splits prod.splits if_splits)
      auto
qed

lemma remote_lines_malformed:
  "malformed bad \<Longrightarrow> remote_lines exts exec db c (bad # rest) = remote_lines exts exec db c rest"
  by (simp only: remote_lines_Cons malformed_def option.case)

lemma remote_lines_skip:
  assumes "malformed bad"
  shows "remote_lines exts exec db c (pre @ bad # post) = remote_lines exts exec db c (pre @ post)"
  by (simp only: remote_lines_append remote_lines_malformed [OF assms])

lemma remote_lines_count:
  "\<forall>l \<in> set ls. valid_in_scope exts l \<Longrightarrow> snd (remote_lines exts exec db c ls) = c + length ls"
proof (induction ls arbitrary: db c)
  case Nil
  then show ?case by simp
next
  case (Cons l ls)
  from Cons.prems obtain name sz fullPath where
    pl: "parse_line l = Some (name, sz, fullPath)" and ok: "isExtensionAllowed name exts"
    by (auto simp: valid_in_scope_def split: option.splits)
  have ih: "snd (remote_lines exts exec d (Suc c) ls) = Suc c + length ls" for d
    by (rule Cons.IH) (use Cons.prems in simp)
  show ?case
    by (cases "exec c") (simp_all add: remote_lines_Cons pl ok ih del: remote_lines.simps)
qed

lemma remote_lines_keys:
  assumes ex: "\<forall>n. exec n = None"
  shows "\<forall>l \<in> set ls. valid_in_scope exts l \<Longrightarrow>
   Some ` set (map (\<lambda>r. (filename r, size_col r)) (fst (remote_lines exts exec db c ls)))
   = Some ` set (map (\<lambda>r. (filename r, size_col r)) db) \<union> line_key ` set ls"
proof (induction ls arbitrary: db c)
  case Nil
  then show ?case by simp
next
  case (Cons l ls)
  from Cons.prems obtain name sz fullPath where
    pl: "parse_line l = Some (name, sz, fullPath)" and ok: "isExtensionAllowed name exts"
    by (auto simp: valid_in_scope_def split: option.splits)
  have k: "line_key l = Some (name, sz)"
    by (simp add: line_key_def pl)
  have ih: "Some ` set (map (\<lambda>r. (filename r, size_col r))
          (fst (remote_lines exts exec (upsertRemote db name sz fullPath) (c + 1) ls)))
       = Some ` set (map (\<lambda>r. (filename r, size_col r)) (upsertRemote db name sz fullPath))
         \<union> line_key ` set ls"
    by (rule Cons.IH) (use Cons.prems in simp)
  have "exec c = None" using ex by simp
  then have step: "remote_lines exts exec db c (l # ls)
       = remote_lines exts exec (upsertRemote db name sz fullPath) (c + 1) ls"
    by (simp add: remote_lines_Cons pl ok del: remote_lines.simps)
  show ?case
    unfolding step ih keys_upsertRemote using k by simp
qed

lemma remote_lines_pk_ok: "pk_ok db \<Longrightarrow> pk_ok (fst (remote_lines exts exec db c ls))"
proof (induction ls arbitrary: db c)
  case Nil
  then show ?case by simp
next
  case (Cons l ls)
  show ?case
    by (simp add: remote_lines_Cons Cons.IH Cons.prems pk_ok_upsertRemote
        del: remote_lines.simps split: option.splits)
qed

lemma remote_lines_records:
  assumes "\<forall>l \<in> set ls. valid_in_scope exts l" and "\<forall>n. exec n = None"
  shows "length (fst (remote_lines exts exec [] 0 ls)) = card (line_key ` set ls)"
proof -
  let ?keys = "map (\<lambda>r. (filename r, size_col r)) (fst (remote_lines exts exec [] 0 ls))"
  have "pk_ok (fst (remote_lines exts exec [] 0 ls))"
    by (rule remote_lines_pk_ok) (simp add: pk_ok_def)
  then have "distinct ?keys" by (simp only: pk_ok_def)
  then have "card (set ?keys) = length ?keys"
    by (rule distinct_card)
  moreover have "card (Some ` set ?keys) = card (set ?keys)"
    by (rule card_image) simp
  moreover have "Some ` set ?keys = line_key ` set ls"
    using remote_lines_keys [OF assms(2,1), of "[]" 0] by simp
  ultimately have "card (line_key ` set ls) = length ?keys"
    by simp
  then show ?thesis by (simp only: length_map)
qed

lemma runAdd_remote_listing:
  "\<forall>l \<in> set ls. scannable l \<Longrightarrow>
   runAdd_remote exts exec db (Inr (listing ls))
     = (fst (remote_lines exts exec db 0 (map dropCR ls)),
        Inr (snd (remote_lines exts exec db 0 (map dropCR ls))))"
  by (simp add: runAdd_remote_def scanner_tokens_listing split: prod.splits)

text \<open>A write the store refuses is counted like one it accepts; the table stays as it was.\<close>

lemma remote_lines_failed_write:
  assumes "valid_in_scope exts line" and "exec c = Some err"
  shows "remote_lines exts exec db c (line # rest) = remote_lines exts exec db (c + 1) rest"
proof -
  from assms(1) obtain name sz fullPath where
    "parse_line line = Some (name, sz, fullPath)" "isExtensionAllowed name exts"
    by (auto simp: valid_in_scope_def split: option.splits)
  then show ?thesis
    using assms(2) by (simp add: remote_lines_Cons del: remote_lines.simps)
qed

lemma example_lines:
  "scannable ''find: garbage''"
  "scannable (listing_line ''a.jpg'' ''10'' ''/r/a.jpg'')"
  "scannable (listing_line ''b.jpg'' ''20'' ''/r/b.jpg'')"
  "scannable (listing_line ''a.jpg'' ''10'' ''/r/x/a.jpg'')"
  "scannable (listing_line ''a.jpg'' ''10'' ''/r/y/a.jpg'')"
  "malformed (dropCR ''find: garbage'')"
  "malformed (dropCR (listing_line ''a.jpg'' ''1o'' ''/r/a.jpg''))"
  "valid_in_scope [''.jpg''] (dropCR (listing_line ''a.jpg'' ''10'' ''/r/a.jpg''))"
  "valid_in_scope [''.jpg''] (dropCR (listing_line ''b.jpg'' ''20'' ''/r/b.jpg''))"
  "valid_in_scope [''.jpg''] (dropCR (listing_line ''a.jpg'' ''10'' ''/r/x/a.jpg''))"
  "valid_in_scope [''.jpg''] (dropCR (listing_line ''a.jpg'' ''10'' ''/r/y/a.jpg''))"
  by (simp_all add: scannable_def MaxScanTokenSize_def dropCR_def malformed_def
      valid_in_scope_def parse_line_def listing_line_def tab_def
      ParseInt_def ParseUint_def maxUint64_def HasSuffix_def)

lemma example_keys:
  "distinct (map (line_key \<circ> dropCR) ([listing_line ''a.jpg'' ''10'' ''/r/a.jpg'']
                            @ [listing_line ''b.jpg'' ''20'' ''/r/b.jpg'']))"
  by (simp add: line_key_def parse_line_def listing_line_def tab_def dropCR_def
      ParseInt_def ParseUint_def maxUint64_def)

lemma example_same_identity:
  "remote_lines [''.jpg''] store_ok [] 0
     (map dropCR [listing_line ''a.jpg'' ''10'' ''/r/x/a.jpg'', ''find: garbage'',
                  listing_line ''a.jpg'' ''10'' ''/r/y/a.jpg''])
   = ([\<lparr>filename = ''a.jpg'', size_col = 10, local_path = None,
         remote_path = Some ''/r/y/a.jpg''\<rparr>], 2)"
  by (simp add: listing_line_def tab_def dropCR_def store_ok_def
      ParseInt_def ParseUint_def maxUint64_def HasSuffix_def)

text \<open>
  A line of 64 KiB in the listing: the scan ends there without an error, with the line
  before it merged and the valid line after it never read.
\<close>

lemma example_long_line:
  "runAdd_remote [''.jpg''] store_ok []
     (Inr (listing [listing_line ''a.jpg'' ''10'' ''/r/a.jpg'', replicate 65536 CHR ''g'',
                    listing_line ''b.jpg'' ''20'' ''/r/b.jpg'']))
   = ([\<lparr>filename = ''a.jpg'', size_col = 10, local_path = None,
         remote_path = Some ''/r/a.jpg''\<rparr>], Inr 1)"
proof -
  have pre: "\<forall>l \<in> set [listing_line ''a.jpg'' ''10'' ''/r/a.jpg'']. scannable l"
    using example_lines by simp
  have long: "CHR 0x0A \<notin> set (replicate 65536 CHR ''g'')"
    "length (replicate 65536 CHR ''g'') \<ge> MaxScanTokenSize"
    by (simp_all add: MaxScanTokenSize_def)
  have toks: "scanner_tokens []
       (listing ([listing_line ''a.jpg'' ''10'' ''/r/a.jpg''] @ replicate 65536 CHR ''g''
                 # [listing_line ''b.jpg'' ''20'' ''/r/b.jpg'']))
     = map dropCR [listing_line ''a.jpg'' ''10'' ''/r/a.jpg'']"
    using pre long by (rule scanner_stops_at_long_line)
  have "remote_lines [''.jpg''] store_ok [] 0 (map dropCR [listing_line ''a.jpg'' ''10'' ''/r/a.jpg''])
     = ([\<lparr>filename = ''a.jpg'', size_col = 10, local_path = None,
           remote_path = Some ''/r/a.jpg''\<rparr>], 1)"
    by (simp add: listing_line_def tab_def dropCR_def store_ok_def
        ParseInt_def ParseUint_def maxUint64_def HasSuffix_def)
  then show ?thesis
    using toks by (simp add: runAdd_remote_def del: remote_lines.simps scanner_tokens.simps)
qed

text \<open>
  Claim C5, as stated, promises N merged records and one counted skip. The loop keeps one
  counter, of the accepted lines, and the table keeps one row per identity: with two valid
  lines that carry the same name and size (the same file name in two remote directories)
  around one malformed line, and a store that never fails, the table ends with one row,
  not two, and the one number the scan reports is 2.
\<close>

theorem C5_one_record_per_identity_counterexample:
  "valid_in_scope [''.jpg''] (dropCR (listing_line ''a.jpg'' ''10'' ''/r/x/a.jpg''))
   \<and> valid_in_scope [''.jpg''] (dropCR (listing_line ''a.jpg'' ''10'' ''/r/y/a.jpg''))
   \<and> malformed (dropCR ''find: garbage'')
   \<and> runAdd_remote [''.jpg''] store_ok []
        (Inr (listing [listing_line ''a.jpg'' ''10'' ''/r/x/a.jpg'', ''find: garbage'',
                       listing_line ''a.jpg'' ''10'' ''/r/y/a.jpg'']))
      = ([\<lparr>filename = ''a.jpg'', size_col = 10, local_path = None,
            remote_path = Some ''/r/y/a.jpg''\<rparr>], Inr 2)"
proof -
  have sc: "\<forall>l \<in> set [listing_line ''a.jpg'' ''10'' ''/r/x/a.jpg'', ''find: garbage'',
                       listing_line ''a.jpg'' ''10'' ''/r/y/a.jpg'']. scannable l"
    using example_lines by simp
  have "runAdd_remote [''.jpg''] store_ok []
        (Inr (listing [listing_line ''a.jpg'' ''10'' ''/r/x/a.jpg'', ''find: garbage'',
                       listing_line ''a.jpg'' ''10'' ''/r/y/a.jpg'']))
      = ([\<lparr>filename = ''a.jpg'', size_col = 10, local_path = None,
            remote_path = Some ''/r/y/a.jpg''\<rparr>], Inr 2)"
    unfolding runAdd_remote_listing [OF sc] example_same_identity by simp
  with example_lines(10,11,6) show ?thesis by (intro conjI)
qed

text \<open>
  Claim C5, amended. In a remote listing whose lines are each shorter than 64 KiB, one
  malformed line (a field count other than three, or a size that \<^verbatim>\<open>ParseInt\<close> rejects)
  among N valid lines in scope is skipped and the scan goes on: the result is that of the
  listing without the line, and it is never fatal. The count the scan reports is N, the
  number of valid lines, whether or not the store accepted each of them (a failing write
  is logged and the line still counted). When no write fails, a scan into an empty table
  leaves one row per distinct identity \<^verbatim>\<open>(name, size)\<close> among the valid lines, so N rows
  when their identities are pairwise distinct. Skipped lines are not counted.
\<close>

theorem C5_remote_scan_skips_malformed:
  assumes "\<forall>l \<in> set (pre @ bad # post). scannable l"
    and "malformed (dropCR bad)"
    and "\<forall>l \<in> set (pre @ post). valid_in_scope exts (dropCR l)"
  shows "runAdd_remote exts exec db (Inr (listing (pre @ bad # post)))
           = runAdd_remote exts exec db (Inr (listing (pre @ post)))
       \<and> snd (runAdd_remote exts exec db (Inr (listing (pre @ bad # post))))
           = Inr (length (pre @ post))
       \<and> ((\<forall>n. exec n = None) \<longrightarrow>
            length (fst (runAdd_remote exts exec [] (Inr (listing (pre @ bad # post)))))
              = card ((line_key \<circ> dropCR) ` set (pre @ post)))
       \<and> ((\<forall>n. exec n = None) \<and> distinct (map (line_key \<circ> dropCR) (pre @ post)) \<longrightarrow>
            length (fst (runAdd_remote exts exec [] (Inr (listing (pre @ bad # post)))))
              = length (pre @ post))"
proof -
  let ?toks = "map dropCR (pre @ post)"
  have sc: "\<forall>l \<in> set (pre @ post). scannable l"
    using assms(1) by simp
  have v: "\<forall>t \<in> set ?toks. valid_in_scope exts t"
    using assms(3) by auto
  have skip: "remote_lines exts exec d 0 (map dropCR (pre @ bad # post))
      = remote_lines exts exec d 0 ?toks" for d
    using remote_lines_skip [OF assms(2), of exts exec d 0 "map dropCR pre" "map dropCR post"]
    by simp
  have run: "runAdd_remote exts exec d (Inr (listing (pre @ bad # post)))
      = (fst (remote_lines exts exec d 0 ?toks), Inr (snd (remote_lines exts exec d 0 ?toks)))" for d
    unfolding runAdd_remote_listing [OF assms(1)] skip by (rule refl)
  have run': "runAdd_remote exts exec db (Inr (listing (pre @ post)))
      = (fst (remote_lines exts exec db 0 ?toks), Inr (snd (remote_lines exts exec db 0 ?toks)))"
    by (rule runAdd_remote_listing [OF sc])
  have cnt: "snd (remote_lines exts exec db 0 ?toks) = length (pre @ post)"
    using remote_lines_count [OF v, of exec db 0] by simp
  have img: "line_key ` set ?toks = (line_key \<circ> dropCR) ` set (pre @ post)"
    by (simp only: set_map image_comp)
  have rec: "length (fst (remote_lines exts exec [] 0 ?toks))
      = card ((line_key \<circ> dropCR) ` set (pre @ post))" if "\<forall>n. exec n = None"
    using remote_lines_records [OF v that] unfolding img .
  have dis: "card ((line_key \<circ> dropCR) ` set (pre @ post)) = length (pre @ post)"
    if "distinct (map (line_key \<circ> dropCR) (pre @ post))"
  proof -
    have "card (set (map (line_key \<circ> dropCR) (pre @ post)))
        = length (map (line_key \<circ> dropCR) (pre @ post))"
      using that by (rule distinct_card)
    then show ?thesis by (simp only: set_map length_map)
  qed
  show ?thesis
    unfolding run run' using cnt rec dis by simp
qed

theorem C5_remote_scan_skips_malformed_witness:
  "scannable (listing_line ''a.jpg'' ''10'' ''/r/a.jpg'') \<and> scannable ''find: garbage''
   \<and> scannable (listing_line ''b.jpg'' ''20'' ''/r/b.jpg'')
   \<and> malformed (dropCR ''find: garbage'')
   \<and> valid_in_scope [''.jpg''] (dropCR (listing_line ''a.jpg'' ''10'' ''/r/a.jpg''))
   \<and> valid_in_scope [''.jpg''] (dropCR (listing_line ''b.jpg'' ''20'' ''/r/b.jpg''))
   \<and> runAdd_remote [''.jpg''] store_ok []
        (Inr (listing [listing_line ''a.jpg'' ''10'' ''/r/a.jpg'', ''find: garbage'',
                       listing_line ''b.jpg'' ''20'' ''/r/b.jpg'']))
      = runAdd_remote [''.jpg''] store_ok []
        (Inr (listing [listing_line ''a.jpg'' ''10'' ''/r/a.jpg'',
                       listing_line ''b.jpg'' ''20'' ''/r/b.jpg'']))
   \<and> snd (runAdd_remote [''.jpg''] store_ok []
        (Inr (listing [listing_line ''a.jpg'' ''10'' ''/r/a.jpg'', ''find: garbage'',
                       listing_line ''b.jpg'' ''20'' ''/r/b.jpg'']))) = Inr 2
   \<and> length (fst (runAdd_remote [''.jpg''] store_ok []
        (Inr (listing [listing_line ''a.jpg'' ''10'' ''/r/a.jpg'', ''find: garbage'',
                       listing_line ''b.jpg'' ''20'' ''/r/b.jpg''])))) = 2"
proof -
  have sc: "\<forall>l \<in> set ([listing_line ''a.jpg'' ''10'' ''/r/a.jpg''] @ ''find: garbage''
                     # [listing_line ''b.jpg'' ''20'' ''/r/b.jpg'']). scannable l"
    using example_lines by simp
  have v: "\<forall>l \<in> set ([listing_line ''a.jpg'' ''10'' ''/r/a.jpg'']
                     @ [listing_line ''b.jpg'' ''20'' ''/r/b.jpg'']).
             valid_in_scope [''.jpg''] (dropCR l)"
    using example_lines by simp
  have ok: "(\<forall>n. store_ok n = None)
      \<and> distinct (map (line_key \<circ> dropCR) ([listing_line ''a.jpg'' ''10'' ''/r/a.jpg'']
                            @ [listing_line ''b.jpg'' ''20'' ''/r/b.jpg'']))"
    using example_keys by (simp only: store_ok_def) simp
  note t = C5_remote_scan_skips_malformed [OF sc example_lines(6) v, of store_ok "[]"]
  note d = t [THEN conjunct2, THEN conjunct2, THEN conjunct2, THEN mp, OF ok]
  have c: "length [listing_line ''a.jpg'' ''10'' ''/r/a.jpg'',
                   listing_line ''b.jpg'' ''20'' ''/r/b.jpg''] = (2::nat)"
    by simp
  show ?thesis
    using example_lines(2,1,3,6,8,9) t [THEN conjunct1, unfolded append_Cons append_Nil]
      t [THEN conjunct2, THEN conjunct1, unfolded append_Cons append_Nil c]
      d [unfolded append_Cons append_Nil c]
    by (intro conjI)
qed

subsection \<open>Facts about the local walk\<close>

lemma WalkDir_append:
  "WalkDir fn st (xs @ ys) =
     (case WalkDir fn st xs of
        (st', Some err) \<Rightarrow> (st', Some err)
      | (st', None) \<Rightarrow> WalkDir fn st' ys)"
  by (induction xs arbitrary: st) (auto split: prod.splits option.splits)

lemma walk_fn_fails:
  "entry_fails exts v \<Longrightarrow> \<exists>err. walk_fn exts st v = (st, Some err)"
  by (auto simp: entry_fails_def walk_fn_def isl_def split: option.splits sum.splits)

lemma walk_fn_ok:
  "\<not> entry_fails exts v \<Longrightarrow> snd (walk_fn exts st v) = None"
  by (auto simp: entry_fails_def walk_fn_def split: option.splits sum.splits)

lemma walk_fn_relpath_fails:
  "entry_fails_relpath Rel exts v \<Longrightarrow> \<exists>err. walk_fn_relpath Rel exts st v = (st, Some err)"
  by (auto simp: entry_fails_relpath_def walk_fn_relpath_def isl_def split: option.splits sum.splits)

lemma walk_fn_relpath_ok:
  "\<not> entry_fails_relpath Rel exts v \<Longrightarrow> snd (walk_fn_relpath Rel exts st v) = None"
  by (auto simp: entry_fails_relpath_def walk_fn_relpath_def split: option.splits sum.splits)

lemma WalkDir_completes:
  "\<forall>v \<in> set vs. \<forall>st. snd (fn st v) = None \<Longrightarrow> snd (WalkDir fn st vs) = None"
proof (induction vs arbitrary: st)
  case Nil
  then show ?case by simp
next
  case (Cons a vs)
  obtain st' where "fn st a = (st', None)"
    using Cons.prems by (cases "fn st a") (auto dest: spec [of _ st])
  moreover have "snd (WalkDir fn st' vs) = None"
    using Cons.IH Cons.prems by simp
  ultimately show ?case by simp
qed

lemma WalkDir_aborts:
  assumes "snd (WalkDir fn st pre) = None" and "fn (fst (WalkDir fn st pre)) v = (fst (WalkDir fn st pre), Some err)"
  shows "WalkDir fn st (pre @ v # post) = (fst (WalkDir fn st pre), Some err)"
  using assms by (cases "WalkDir fn st pre") (simp add: WalkDir_append)

lemma skip_dir_or_out_of_scope:
  "w_err v = None \<Longrightarrow> d_IsDir v \<or> \<not> isExtensionAllowed (w_path v) exts \<Longrightarrow>
   walk_fn exts st v = (st, None)"
  by (auto simp: walk_fn_def)

lemma example_walk:
  "runAdd_local [''.jpg''] [] [visit_root, visit_a, visit_private, visit_private_denied, visit_z]
     = ([\<lparr>filename = ''a.jpg'', size_col = 10, local_path = Some ''/photos/a.jpg'',
           remote_path = None\<rparr>],
        Inl (Error ''open /photos/private: permission denied''))"
  by (simp add: runAdd_local_def walk_fn_def visit_root_def visit_a_def visit_private_def
      visit_private_denied_def visit_z_def HasSuffix_def)

lemma example_walk_without_failure:
  "runAdd_local [''.jpg''] [] [visit_root, visit_a, visit_private, visit_z]
     = ([\<lparr>filename = ''a.jpg'', size_col = 10, local_path = Some ''/photos/a.jpg'',
           remote_path = None\<rparr>,
         \<lparr>filename = ''z.jpg'', size_col = 20, local_path = Some ''/photos/z.jpg'',
           remote_path = None\<rparr>],
        Inr 2)"
  by (simp add: runAdd_local_def walk_fn_def visit_root_def visit_a_def visit_private_def
      visit_z_def HasSuffix_def)

lemma example_entries:
  "\<not> entry_fails [''.jpg''] visit_root" "\<not> entry_fails [''.jpg''] visit_a"
  "\<not> entry_fails [''.jpg''] visit_private" "entry_fails [''.jpg''] visit_private_denied"
  "\<not> entry_fails_relpath (\<lambda>p. Inr (drop 8 p)) [''.jpg''] visit_root"
  "\<not> entry_fails_relpath (\<lambda>p. Inr (drop 8 p)) [''.jpg''] visit_a"
  "\<not> entry_fails_relpath (\<lambda>p. Inr (drop 8 p)) [''.jpg''] visit_private"
  "entry_fails_relpath (\<lambda>p. Inr (drop 8 p)) [''.jpg''] visit_private_denied"
  by (simp_all add: entry_fails_def entry_fails_relpath_def visit_root_def visit_a_def
      visit_private_def visit_private_denied_def HasSuffix_def)

text \<open>
  Claim C6, as stated, promises that a failure on one entry is skipped and the walk goes
  on. The callback returns every error it meets, and \<^verbatim>\<open>WalkDir\<close> stops on it: when the
  directory \<^verbatim>\<open>private\<close> cannot be read, the scan ends in \<^verbatim>\<open>log.Fatalf\<close> with \<^verbatim>\<open>a.jpg\<close>
  merged and \<^verbatim>\<open>z.jpg\<close> never visited, where the same walk without the failure merges both.
\<close>

theorem C6_walk_stops_at_unreadable_directory_counterexample:
  "runAdd_local [''.jpg''] [] [visit_root, visit_a, visit_private, visit_private_denied, visit_z]
     = ([\<lparr>filename = ''a.jpg'', size_col = 10, local_path = Some ''/photos/a.jpg'',
           remote_path = None\<rparr>],
        Inl (Error ''open /photos/private: permission denied''))
   \<and> runAdd_local [''.jpg''] [] [visit_root, visit_a, visit_private, visit_z]
     = ([\<lparr>filename = ''a.jpg'', size_col = 10, local_path = Some ''/photos/a.jpg'',
           remote_path = None\<rparr>,
         \<lparr>filename = ''z.jpg'', size_col = 20, local_path = Some ''/photos/z.jpg'',
           remote_path = None\<rparr>],
        Inr 2)"
  using example_walk example_walk_without_failure by (intro conjI)

text \<open>
  Claim C6, amended. In both variants a failure on a single entry (an error \<^verbatim>\<open>WalkDir\<close>
  passes to the callback, a failing \<^verbatim>\<open>d.Info()\<close> or \<^verbatim>\<open>filepath.Rel\<close>, a failing write to
  the store) aborts the whole walk: after a prefix of entries without failure, which alone
  would complete, the scan stops at the failing entry with a fatal error, keeps what the
  prefix merged and visits nothing after it. Directories and files outside the extension
  filter are passed over without error.
\<close>

theorem C6_local_walk_aborts_on_entry_failure:
  assumes "\<forall>u \<in> set pre. \<not> entry_fails exts u" and "entry_fails exts v"
    and "\<forall>u \<in> set pre. \<not> entry_fails_relpath Rel exts u" and "entry_fails_relpath Rel exts v"
  shows "(\<exists>n. snd (runAdd_local exts db pre) = Inr n)
       \<and> (\<exists>err. runAdd_local exts db (pre @ v # post)
                   = (fst (runAdd_local exts db pre), Inl err))
       \<and> (\<exists>n. snd (runAdd_local_relpath Rel exts fs pre) = Inr n)
       \<and> (\<exists>err. runAdd_local_relpath Rel exts fs (pre @ v # post)
                   = (fst (runAdd_local_relpath Rel exts fs pre), Inl err))
       \<and> (w_err u = None \<and> (d_IsDir u \<or> \<not> isExtensionAllowed (w_path u) exts)
            \<longrightarrow> walk_fn exts st u = (st, None))"
proof -
  have ok: "snd (WalkDir (walk_fn exts) (db, 0) pre) = None"
    using assms(1) by (intro WalkDir_completes) (simp add: walk_fn_ok)
  obtain err where
    "walk_fn exts (fst (WalkDir (walk_fn exts) (db, 0) pre)) v
       = (fst (WalkDir (walk_fn exts) (db, 0) pre), Some err)"
    using walk_fn_fails [OF assms(2)] by blast
  with ok have ab: "WalkDir (walk_fn exts) (db, 0) (pre @ v # post)
       = (fst (WalkDir (walk_fn exts) (db, 0) pre), Some err)"
    by (rule WalkDir_aborts)
  have ok': "snd (WalkDir (walk_fn_relpath Rel exts) (fs, 0) pre) = None"
    using assms(3) by (intro WalkDir_completes) (simp add: walk_fn_relpath_ok)
  obtain err' where
    "walk_fn_relpath Rel exts (fst (WalkDir (walk_fn_relpath Rel exts) (fs, 0) pre)) v
       = (fst (WalkDir (walk_fn_relpath Rel exts) (fs, 0) pre), Some err')"
    using walk_fn_relpath_fails [OF assms(4)] by blast
  with ok' have ab': "WalkDir (walk_fn_relpath Rel exts) (fs, 0) (pre @ v # post)
       = (fst (WalkDir (walk_fn_relpath Rel exts) (fs, 0) pre), Some err')"
    by (rule WalkDir_aborts)
  have 1: "\<exists>n. snd (runAdd_local exts db pre) = Inr n"
    using ok by (cases "WalkDir (walk_fn exts) (db, 0) pre") (auto simp: runAdd_local_def)
  have 2: "\<exists>err. runAdd_local exts db (pre @ v # post)
                   = (fst (runAdd_local exts db pre), Inl err)"
    using ok ab by (cases "WalkDir (walk_fn exts) (db, 0) pre") (auto simp: runAdd_local_def)
  have 3: "\<exists>n. snd (runAdd_local_relpath Rel exts fs pre) = Inr n"
    using ok' by (cases "WalkDir (walk_fn_relpath Rel exts) (fs, 0) pre")
      (auto simp: runAdd_local_relpath_def)
  have 4: "\<exists>err. runAdd_local_relpath Rel exts fs (pre @ v # post)
                   = (fst (runAdd_local_relpath Rel exts fs pre), Inl err)"
    using ok' ab' by (cases "WalkDir (walk_fn_relpath Rel exts) (fs, 0) pre")
      (auto simp: runAdd_local_relpath_def)
  have 5: "w_err u = None \<and> (d_IsDir u \<or> \<not> isExtensionAllowed (w_path u) exts)
            \<longrightarrow> walk_fn exts st u = (st, None)"
    by (auto simp: skip_dir_or_out_of_scope)
  from 1 2 3 4 5 show ?thesis by (intro conjI)
qed

theorem C6_local_walk_aborts_on_entry_failure_witness:
  "entry_fails [''.jpg''] visit_private_denied
   \<and> \<not> entry_fails [''.jpg''] visit_root \<and> \<not> entry_fails [''.jpg''] visit_a
   \<and> \<not> entry_fails [''.jpg''] visit_private
   \<and> (\<exists>n. snd (runAdd_local [''.jpg''] [] [visit_root, visit_a, visit_private]) = Inr n)
   \<and> (\<exists>err. runAdd_local [''.jpg''] []
               [visit_root, visit_a, visit_private, visit_private_denied, visit_z]
             = (fst (runAdd_local [''.jpg''] [] [visit_root, visit_a, visit_private]), Inl err))
   \<and> (\<exists>err. runAdd_local_relpath (\<lambda>p. Inr (drop 8 p)) [''.jpg''] []
               [visit_root, visit_a, visit_private, visit_private_denied, visit_z]
             = (fst (runAdd_local_relpath (\<lambda>p. Inr (drop 8 p)) [''.jpg''] []
                       [visit_root, visit_a, visit_private]), Inl err))
   \<and> walk_fn [''.jpg''] ([], 0) visit_private = (([], 0), None)"
proof -
  have p: "\<forall>u \<in> set [visit_root, visit_a, visit_private]. \<not> entry_fails [''.jpg''] u"
    using example_entries by simp
  have q: "\<forall>u \<in> set [visit_root, visit_a, visit_private].
             \<not> entry_fails_relpath (\<lambda>p. Inr (drop 8 p)) [''.jpg''] u"
    using example_entries by simp
  note t = C6_local_walk_aborts_on_entry_failure [OF p example_entries(4) q example_entries(8),
      of "[]" "[visit_z]" "[]" visit_private "([], 0)", unfolded append_Cons append_Nil]
  have dir: "w_err visit_private = None
      \<and> (d_IsDir visit_private \<or> \<not> isExtensionAllowed (w_path visit_private) [''.jpg''])"
    by (simp add: visit_private_def)
  show ?thesis
    using example_entries(4,1,2,3) t [THEN conjunct1] t [THEN conjunct2, THEN conjunct1]
      t [THEN conjunct2, THEN conjunct2, THEN conjunct2, THEN conjunct1]
      t [THEN conjunct2, THEN conjunct2, THEN conjunct2, THEN conjunct2, THEN mp, OF dir]
    by (intro conjI)
qed

end
